theory Spec2Isabelle
  imports Main "HOL-Library.Word" "HOL-Library.List_Lexorder"
begin

section \<open>hello\_tls: wire constants\<close>

text \<open>
  A shallow embedding of \<^verbatim>\<open>hello_tls.py\<close>. Python \<^verbatim>\<open>bytes\<close> are lists of
  8-bit words, Python \<^verbatim>\<open>int\<close> is \<^typ>\<open>int\<close>, \<^verbatim>\<open>str\<close> is \<^typ>\<open>string\<close> (a
  character with code above 127 stands for a non-ASCII character), every \<^verbatim>\<open>raise\<close>
  and failed \<^verbatim>\<open>assert\<close> is the \<open>Inl\<close> branch of a sum.
\<close>

type_synonym byte = "8 word"
type_synonym bytes = "byte list"

datatype Protocol = SSLv3 | TLS_1_0 | TLS_1_1 | TLS_1_2 | TLS_1_3

fun Protocol_value :: "Protocol \<Rightarrow> bytes" where
  "Protocol_value SSLv3 = [0x03, 0x00]"
| "Protocol_value TLS_1_0 = [0x03, 0x01]"
| "Protocol_value TLS_1_1 = [0x03, 0x02]"
| "Protocol_value TLS_1_2 = [0x03, 0x03]"
| "Protocol_value TLS_1_3 = [0x03, 0x04]"

definition Protocol_members :: "Protocol list" where
  "Protocol_members = [SSLv3, TLS_1_0, TLS_1_1, TLS_1_2, TLS_1_3]"

datatype CipherSuite =
    TLS_AES_128_GCM_SHA256
  | TLS_AES_256_GCM_SHA384
  | TLS_CHACHA20_POLY1305_SHA256
  | TLS_AES_128_CCM_SHA256
  | TLS_AES_128_CCM_8_SHA256
  | TLS_EMPTY_RENEGOTIATION_INFO_SCSV
  | TLS_RSA_WITH_3DES_EDE_CBC_SHA
  | TLS_RSA_WITH_AES_128_CBC_SHA
  | TLS_RSA_WITH_AES_256_CBC_SHA
  | TLS_RSA_WITH_AES_128_GCM_SHA256
  | TLS_RSA_WITH_AES_256_GCM_SHA384
  | TLS_ECDHE_ECDSA_WITH_AES_128_CBC_SHA
  | TLS_ECDHE_ECDSA_WITH_AES_256_CBC_SHA
  | TLS_ECDHE_RSA_WITH_3DES_EDE_CBC_SHA
  | TLS_ECDHE_RSA_WITH_AES_128_CBC_SHA
  | TLS_ECDHE_RSA_WITH_AES_256_CBC_SHA
  | TLS_ECDHE_ECDSA_WITH_AES_128_GCM_SHA256
  | TLS_ECDHE_ECDSA_WITH_AES_256_GCM_SHA384
  | TLS_ECDHE_RSA_WITH_AES_128_GCM_SHA256
  | TLS_ECDHE_RSA_WITH_AES_256_GCM_SHA384
  | TLS_ECDHE_RSA_WITH_CHACHA20_POLY1305_SHA256
  | TLS_ECDHE_ECDSA_WITH_CHACHA20_POLY1305_SHA256

fun CipherSuite_value :: "CipherSuite \<Rightarrow> bytes" where
  "CipherSuite_value TLS_AES_128_GCM_SHA256 = [0x13, 0x01]"
| "CipherSuite_value TLS_AES_256_GCM_SHA384 = [0x13, 0x02]"
| "CipherSuite_value TLS_CHACHA20_POLY1305_SHA256 = [0x13, 0x03]"
| "CipherSuite_value TLS_AES_128_CCM_SHA256 = [0x13, 0x04]"
| "CipherSuite_value TLS_AES_128_CCM_8_SHA256 = [0x13, 0x05]"
| "CipherSuite_value TLS_EMPTY_RENEGOTIATION_INFO_SCSV = [0x00, 0xff]"
| "CipherSuite_value TLS_RSA_WITH_3DES_EDE_CBC_SHA = [0x00, 0x0a]"
| "CipherSuite_value TLS_RSA_WITH_AES_128_CBC_SHA = [0x00, 0x2f]"
| "CipherSuite_value TLS_RSA_WITH_AES_256_CBC_SHA = [0x00, 0x35]"
| "CipherSuite_value TLS_RSA_WITH_AES_128_GCM_SHA256 = [0x00, 0x9c]"
| "CipherSuite_value TLS_RSA_WITH_AES_256_GCM_SHA384 = [0x00, 0x9d]"
| "CipherSuite_value TLS_ECDHE_ECDSA_WITH_AES_128_CBC_SHA = [0xc0, 0x09]"
| "CipherSuite_value TLS_ECDHE_ECDSA_WITH_AES_256_CBC_SHA = [0xc0, 0x0a]"
| "CipherSuite_value TLS_ECDHE_RSA_WITH_3DES_EDE_CBC_SHA = [0xc0, 0x12]"
| "CipherSuite_value TLS_ECDHE_RSA_WITH_AES_128_CBC_SHA = [0xc0, 0x13]"
| "CipherSuite_value TLS_ECDHE_RSA_WITH_AES_256_CBC_SHA = [0xc0, 0x14]"
| "CipherSuite_value TLS_ECDHE_ECDSA_WITH_AES_128_GCM_SHA256 = [0xc0, 0x2b]"
| "CipherSuite_value TLS_ECDHE_ECDSA_WITH_AES_256_GCM_SHA384 = [0xc0, 0x2c]"
| "CipherSuite_value TLS_ECDHE_RSA_WITH_AES_128_GCM_SHA256 = [0xc0, 0x2f]"
| "CipherSuite_value TLS_ECDHE_RSA_WITH_AES_256_GCM_SHA384 = [0xc0, 0x30]"
| "CipherSuite_value TLS_ECDHE_RSA_WITH_CHACHA20_POLY1305_SHA256 = [0xcc, 0xa8]"
| "CipherSuite_value TLS_ECDHE_ECDSA_WITH_CHACHA20_POLY1305_SHA256 = [0xcc, 0xa9]"

text \<open>The members in definition order, as \<^verbatim>\<open>tuple(CipherSuite)\<close> lists them.\<close>

definition CipherSuite_members :: "CipherSuite list" where
  "CipherSuite_members =
    [TLS_AES_128_GCM_SHA256, TLS_AES_256_GCM_SHA384, TLS_CHACHA20_POLY1305_SHA256,
     TLS_AES_128_CCM_SHA256, TLS_AES_128_CCM_8_SHA256, TLS_EMPTY_RENEGOTIATION_INFO_SCSV,
     TLS_RSA_WITH_3DES_EDE_CBC_SHA, TLS_RSA_WITH_AES_128_CBC_SHA,
     TLS_RSA_WITH_AES_256_CBC_SHA, TLS_RSA_WITH_AES_128_GCM_SHA256,
     TLS_RSA_WITH_AES_256_GCM_SHA384, TLS_ECDHE_ECDSA_WITH_AES_128_CBC_SHA,
     TLS_ECDHE_ECDSA_WITH_AES_256_CBC_SHA, TLS_ECDHE_RSA_WITH_3DES_EDE_CBC_SHA,
     TLS_ECDHE_RSA_WITH_AES_128_CBC_SHA, TLS_ECDHE_RSA_WITH_AES_256_CBC_SHA,
     TLS_ECDHE_ECDSA_WITH_AES_128_GCM_SHA256, TLS_ECDHE_ECDSA_WITH_AES_256_GCM_SHA384,
     TLS_ECDHE_RSA_WITH_AES_128_GCM_SHA256, TLS_ECDHE_RSA_WITH_AES_256_GCM_SHA384,
     TLS_ECDHE_RSA_WITH_CHACHA20_POLY1305_SHA256,
     TLS_ECDHE_ECDSA_WITH_CHACHA20_POLY1305_SHA256]"

datatype AlertLevel = WARNING | FATAL

fun AlertLevel_value :: "AlertLevel \<Rightarrow> int" where
  "AlertLevel_value WARNING = 1"
| "AlertLevel_value FATAL = 2"

definition AlertLevel_members :: "AlertLevel list" where
  "AlertLevel_members = [WARNING, FATAL]"

datatype AlertDescription =
    close_notify
  | unexpected_message
  | bad_record_mac
  | record_overflow
  | handshake_failure
  | bad_certificate
  | unsupported_certificate
  | certificate_revoked
  | certificate_expired
  | certificate_unknown
  | illegal_parameter
  | unknown_ca
  | access_denied
  | decode_error
  | decrypt_error
  | protocol_version
  | insufficient_security
  | internal_error
  | inappropriate_fallback
  | user_canceled
  | missing_extension
  | unsupported_extension
  | unrecognized_name
  | bad_certificate_status_response
  | unknown_psk_identity
  | certificate_required
  | no_application_protocol

fun AlertDescription_value :: "AlertDescription \<Rightarrow> int" where
  "AlertDescription_value close_notify = 0"
| "AlertDescription_value unexpected_message = 10"
| "AlertDescription_value bad_record_mac = 20"
| "AlertDescription_value record_overflow = 22"
| "AlertDescription_value handshake_failure = 40"
| "AlertDescription_value bad_certificate = 42"
| "AlertDescription_value unsupported_certificate = 43"
| "AlertDescription_value certificate_revoked = 44"
| "AlertDescription_value certificate_expired = 45"
| "AlertDescription_value certificate_unknown = 46"
| "AlertDescription_value illegal_parameter = 47"
| "AlertDescription_value unknown_ca = 48"
| "AlertDescription_value access_denied = 49"
| "AlertDescription_value decode_error = 50"
| "AlertDescription_value decrypt_error = 51"
| "AlertDescription_value protocol_version = 70"
| "AlertDescription_value insufficient_security = 71"
| "AlertDescription_value internal_error = 80"
| "AlertDescription_value inappropriate_fallback = 86"
| "AlertDescription_value user_canceled = 90"
| "AlertDescription_value missing_extension = 109"
| "AlertDescription_value unsupported_extension = 110"
| "AlertDescription_value unrecognized_name = 112"
| "AlertDescription_value bad_certificate_status_response = 113"
| "AlertDescription_value unknown_psk_identity = 115"
| "AlertDescription_value certificate_required = 116"
| "AlertDescription_value no_application_protocol = 120"

definition AlertDescription_members :: "AlertDescription list" where
  "AlertDescription_members =
    [close_notify, unexpected_message, bad_record_mac, record_overflow, handshake_failure,
     bad_certificate, unsupported_certificate, certificate_revoked, certificate_expired,
     certificate_unknown, illegal_parameter, unknown_ca, access_denied, decode_error,
     decrypt_error, protocol_version, insufficient_security, internal_error,
     inappropriate_fallback, user_canceled, missing_extension, unsupported_extension,
     unrecognized_name, bad_certificate_status_response, unknown_psk_identity,
     certificate_required, no_application_protocol]"

section \<open>Errors and results\<close>

text \<open>
  The exceptions the module can raise. \<open>ServerError\<close> is the module's own exception
  class with its three attributes; \<open>StructError\<close> is \<^verbatim>\<open>struct.error\<close>; \<open>OSError\<close>
  stands for every failure of the socket (refused, reset, timed out).
\<close>

datatype error =
    ValueError
  | AssertionError
  | StructError
  | OverflowError
  | UnicodeEncodeError
  | OSError
  | ServerError Protocol AlertLevel AlertDescription

text \<open>Sequencing of fallible steps: the first exception ends the evaluation.\<close>

definition and_then :: "error + 'a \<Rightarrow> ('a \<Rightarrow> error + 'b) \<Rightarrow> error + 'b" where
  "and_then r f = (case r of Inl e \<Rightarrow> Inl e | Inr x \<Rightarrow> f x)"

text \<open>
  Calling an \<^verbatim>\<open>Enum\<close> class on a value looks the member up by value and raises
  \<^verbatim>\<open>ValueError\<close> when no member has it.
\<close>

definition enum_lookup :: "('a \<Rightarrow> 'v) \<Rightarrow> 'a list \<Rightarrow> 'v \<Rightarrow> error + 'a" where
  "enum_lookup val members v =
     (case find (\<lambda>m. val m = v) members of None \<Rightarrow> Inl ValueError | Some m \<Rightarrow> Inr m)"

definition Protocol_of :: "bytes \<Rightarrow> error + Protocol" where
  "Protocol_of = enum_lookup Protocol_value Protocol_members"

definition CipherSuite_of :: "bytes \<Rightarrow> error + CipherSuite" where
  "CipherSuite_of = enum_lookup CipherSuite_value CipherSuite_members"

definition AlertLevel_of :: "int \<Rightarrow> error + AlertLevel" where
  "AlertLevel_of = enum_lookup AlertLevel_value AlertLevel_members"

definition AlertDescription_of :: "int \<Rightarrow> error + AlertDescription" where
  "AlertDescription_of = enum_lookup AlertDescription_value AlertDescription_members"

section \<open>Byte codec primitives\<close>

text \<open>
  \<^verbatim>\<open>n.to_bytes(k, byteorder="big")\<close> raises \<^verbatim>\<open>OverflowError\<close> when \<open>n\<close> is negative
  or does not fit in \<open>k\<close> bytes.
\<close>

definition to_uint8 :: "int \<Rightarrow> error + bytes" where
  "to_uint8 n = (if 0 \<le> n \<and> n < 256 then Inr [word_of_int n] else Inl OverflowError)"

definition to_uint16 :: "int \<Rightarrow> error + bytes" where
  "to_uint16 n =
     (if 0 \<le> n \<and> n < 65536 then Inr [word_of_int (n div 256), word_of_int n]
      else Inl OverflowError)"

definition to_uint24 :: "int \<Rightarrow> error + bytes" where
  "to_uint24 n =
     (if 0 \<le> n \<and> n < 16777216
      then Inr [word_of_int (n div 65536), word_of_int (n div 256), word_of_int n]
      else Inl OverflowError)"

text \<open>\<^verbatim>\<open>int.from_bytes(b, byteorder="big")\<close>, for a buffer of any length.\<close>

definition from_uint8 :: "bytes \<Rightarrow> int" where
  "from_uint8 b = foldl (\<lambda>n x. n * 256 + uint x) 0 b"

definition from_uint16 :: "bytes \<Rightarrow> int" where
  "from_uint16 = from_uint8"

text \<open>
  \<^verbatim>\<open>struct.unpack\<close> for the three formats the decoder uses. It raises
  \<^verbatim>\<open>struct.error\<close> unless the buffer has exactly the size of the format:
  5 bytes for \<^verbatim>\<open>!BHH\<close>, 2 for \<^verbatim>\<open>!BB\<close>, 44 for \<^verbatim>\<open>!BHHB3sH32sB\<close>.
\<close>

definition unpack_BHH :: "bytes \<Rightarrow> error + (int \<times> int \<times> int)" where
  "unpack_BHH b =
     (if length b \<noteq> 5 then Inl StructError
      else Inr (uint (b ! 0), from_uint8 (take 2 (drop 1 b)), from_uint8 (take 2 (drop 3 b))))"

definition unpack_BB :: "bytes \<Rightarrow> error + (int \<times> int)" where
  "unpack_BB b =
     (if length b \<noteq> 2 then Inl StructError else Inr (uint (b ! 0), uint (b ! 1)))"

record begin_fields =
  record_type :: int
  legacy_record_version :: int
  handshake_length :: int
  handshake_type :: int
  server_hello_length :: bytes
  server_version_int :: int
  server_random :: bytes
  session_id_length :: int

definition begin_length :: nat where
  "begin_length = 1 + 2 + 2 + 1 + 3 + 2 + 32 + 1"

definition unpack_begin :: "bytes \<Rightarrow> error + begin_fields" where
  "unpack_begin b =
     (if length b \<noteq> begin_length then Inl StructError
      else Inr \<lparr>record_type = uint (b ! 0),
                legacy_record_version = from_uint8 (take 2 (drop 1 b)),
                handshake_length = from_uint8 (take 2 (drop 3 b)),
                handshake_type = uint (b ! 5),
                server_hello_length = take 3 (drop 6 b),
                server_version_int = from_uint8 (take 2 (drop 9 b)),
                server_random = take 32 (drop 11 b),
                session_id_length = uint (b ! 43)\<rparr>)"

section \<open>ServerHello / Alert decoder\<close>

record ServerHello =
  protocol :: Protocol
  cipher_suite :: CipherSuite

text \<open>
  \<^verbatim>\<open>ServerHello.from_packet\<close>. The arguments of \<^verbatim>\<open>ServerError(...)\<close> and of
  \<^verbatim>\<open>ServerHello(...)\<close> are evaluated left to right, so the first unknown code is the
  one that raises.
\<close>

definition from_packet :: "bytes \<Rightarrow> error + ServerHello" where
  "from_packet packet =
    (if packet = [] then Inl ValueError
     else if packet ! 0 = 0x15 then
       and_then (unpack_BHH (take 5 packet)) (\<lambda>(rtype, legacy_version, len).
       if rtype \<noteq> 0x15 then Inl AssertionError else
       and_then (unpack_BB (take 2 (drop 5 packet))) (\<lambda>(alert_level_id, alert_description_id).
       and_then (to_uint16 legacy_version) (\<lambda>v.
       and_then (Protocol_of v) (\<lambda>p.
       and_then (AlertLevel_of alert_level_id) (\<lambda>level.
       and_then (AlertDescription_of alert_description_id) (\<lambda>alert.
       Inl (ServerError p level alert)))))))
     else if packet ! 0 \<noteq> 0x16 then Inl AssertionError
     else
       and_then (unpack_begin (take begin_length packet)) (\<lambda>f.
       if record_type f \<noteq> 0x16 then Inl AssertionError
       else if legacy_record_version f \<notin> set [0x0301, 0x0302, 0x0303] then Inl AssertionError
       else if handshake_type f \<noteq> 0x02 then Inl AssertionError
       else if server_version_int f \<notin> set [0x0301, 0x0302, 0x0303] then Inl AssertionError
       else if session_id_length f \<notin> set [0, 0x20] then Inl AssertionError
       else
         let cipher_suite_start = begin_length + nat (session_id_length f);
             cipher_suite_id = take 2 (drop cipher_suite_start packet)
         in and_then (to_uint16 (server_version_int f)) (\<lambda>v.
            and_then (Protocol_of v) (\<lambda>p.
            and_then (CipherSuite_of cipher_suite_id) (\<lambda>c.
            Inr \<lparr>protocol = p, cipher_suite = c\<rparr>)))))"


text \<open>
  A synthetic ServerHello record, as a test would build it: record type, record
  version \<open>v\<close>, two length bytes, handshake type 2, three length bytes, server version
  \<open>p\<close>, the 32 random bytes, the session id with its length byte, the cipher suite \<open>c\<close>,
  and whatever follows.
\<close>

definition server_hello_record ::
  "Protocol \<Rightarrow> bytes \<Rightarrow> bytes \<Rightarrow> Protocol \<Rightarrow> bytes \<Rightarrow> bytes \<Rightarrow> CipherSuite \<Rightarrow> bytes \<Rightarrow> bytes" where
  "server_hello_record v hlen shlen p random sid c rest =
     [0x16] @ Protocol_value v @ hlen @ [0x02] @ shlen @ Protocol_value p @ random @
     [word_of_nat (length sid)] @ sid @ CipherSuite_value c @ rest"

section \<open>ClientHello encoder\<close>

record ClientHello =
  server_name :: string
  allowed_protocols :: "Protocol list"
  allowed_cipher_suites :: "CipherSuite list"

text \<open>
  \<^verbatim>\<open>b"".join([...])\<close>: the list elements are evaluated in order, so the first one that
  raises decides the error; otherwise the pieces are concatenated.
\<close>

fun join :: "(error + bytes) list \<Rightarrow> error + bytes" where
  "join [] = Inr []"
| "join (Inl e # rest) = Inl e"
| "join (Inr b # rest) = and_then (join rest) (\<lambda>bs. Inr (b @ bs))"

text \<open>\<^verbatim>\<open>str.encode("ascii")\<close> raises on any character outside ASCII.\<close>

definition encode_ascii :: "string \<Rightarrow> error + bytes" where
  "encode_ascii s =
     (if list_all (\<lambda>c. (of_char c :: nat) < 128) s then Inr (map of_char s)
      else Inl UnicodeEncodeError)"

text \<open>
  \<^verbatim>\<open>max(xs, key=...)\<close>: \<^verbatim>\<open>ValueError\<close> on an empty sequence, otherwise the first
  element whose key is maximal. The keys here are \<^verbatim>\<open>bytes\<close>, compared
  lexicographically.
\<close>

definition max_key :: "('a \<Rightarrow> 'k::linorder) \<Rightarrow> 'a list \<Rightarrow> error + 'a" where
  "max_key key xs =
     (case xs of
        [] \<Rightarrow> Inl ValueError
      | x # rest \<Rightarrow> Inr (foldl (\<lambda>m y. if key m < key y then y else m) x rest))"

definition curves :: bytes where
  "curves = concat
    [[0x00, 0x1d], [0x00, 0x17], [0x00, 0x1e], [0x00, 0x18], [0x00, 0x19],
     [0x01, 0x00], [0x01, 0x01], [0x01, 0x02], [0x01, 0x03], [0x01, 0x04]]"

definition signature_algorithms :: bytes where
  "signature_algorithms = concat
    [[0x04, 0x03], [0x05, 0x03], [0x06, 0x03], [0x08, 0x07], [0x08, 0x08], [0x08, 0x09],
     [0x08, 0x0a], [0x08, 0x0b], [0x08, 0x04], [0x08, 0x05], [0x08, 0x06], [0x04, 0x01],
     [0x05, 0x01], [0x06, 0x01], [0x02, 0x01], [0x02, 0x03]]"

definition psk_key_exchange_modes :: bytes where
  "psk_key_exchange_modes = [0x00, 0x2d, 0x00, 0x02, 0x01, 0x01]"

definition key_share :: bytes where
  "key_share =
    [0x00, 0x33, 0x00, 0x26, 0x00, 0x24, 0x00, 0x1d, 0x00, 0x20,
     0x35, 0x80, 0x72, 0xd6, 0x36, 0x58, 0x80, 0xd1, 0xae, 0xea, 0x32, 0x9a, 0xdf, 0x91, 0x21,
     0x38, 0x38, 0x51, 0xed, 0x21, 0xa2, 0x8e, 0x3b, 0x75, 0xe9, 0x65, 0xd0, 0xd2, 0xcd, 0x16,
     0x62, 0x54]"

definition client_random :: bytes where
  "client_random =
    [0x00, 0x01, 0x02, 0x03, 0x04, 0x05, 0x06, 0x07, 0x08, 0x09, 0x0a, 0x0b, 0x0c, 0x0d, 0x0e,
     0x0f, 0x10, 0x11, 0x12, 0x13, 0x14, 0x15, 0x16, 0x17, 0x18, 0x19, 0x1a, 0x1b, 0x1c, 0x1d,
     0x1e, 0x1f]"

definition legacy_session_id :: bytes where
  "legacy_session_id =
    [0xe0, 0xe1, 0xe2, 0xe3, 0xe4, 0xe5, 0xe6, 0xe7, 0xe8, 0xe9, 0xea, 0xeb, 0xec, 0xed, 0xee,
     0xef, 0xf0, 0xf1, 0xf2, 0xf3, 0xf4, 0xf5, 0xf6, 0xf7, 0xf8, 0xf9, 0xfa, 0xfb, 0xfc, 0xfd,
     0xfe, 0xff]"

text \<open>The local \<^verbatim>\<open>supported_version_extension\<close> of \<^verbatim>\<open>make_packet\<close>.\<close>

definition supported_version_extension :: "ClientHello \<Rightarrow> error + bytes" where
  "supported_version_extension ch =
     (if TLS_1_3 \<in> set (allowed_protocols ch) then
        let supported_versions = concat (map Protocol_value (allowed_protocols ch))
        in join [Inr [0x00, 0x2b],
                 to_uint16 (int (length supported_versions) + 1),
                 to_uint8 (int (length supported_versions)),
                 Inr supported_versions]
      else Inr [])"

text \<open>The local \<^verbatim>\<open>extensions\<close> of \<^verbatim>\<open>make_packet\<close>.\<close>

definition extensions :: "ClientHello \<Rightarrow> bytes \<Rightarrow> error + bytes" where
  "extensions ch sve = join
    [Inr [0x00, 0x00],
     to_uint16 (int (length (server_name ch)) + 5),
     to_uint16 (int (length (server_name ch)) + 3),
     Inr [0x00],
     to_uint16 (int (length (server_name ch))),
     encode_ascii (server_name ch),

     Inr [0x00, 0x05], Inr [0x00, 0x05], Inr [0x01], Inr [0x00, 0x00], Inr [0x00, 0x00],

     Inr [0x00, 0x0b], Inr [0x00, 0x04], Inr [0x03], Inr [0x00], Inr [0x01], Inr [0x02],

     Inr [0x00, 0x0a],
     to_uint16 (int (length curves) + 2),
     to_uint16 (int (length curves)),
     Inr curves,

     Inr [0x00, 0x23], Inr [0x00, 0x00],

     Inr [0x00, 0x16], Inr [0x00, 0x00],

     Inr [0x00, 0x17], Inr [0x00, 0x00],

     Inr [0x00, 0x0d],
     to_uint16 (int (length signature_algorithms) + 2),
     to_uint16 (int (length signature_algorithms)),
     Inr signature_algorithms,

     Inr [0xff, 0x01], Inr [0x00, 0x01], Inr [0x00],

     Inr [0x00, 0x12], Inr [0x00, 0x00],

     Inr sve,

     Inr psk_key_exchange_modes,

     Inr key_share]"

definition make_packet :: "ClientHello \<Rightarrow> error + bytes" where
  "make_packet ch =
    (let cipher_suites = concat (map CipherSuite_value (allowed_cipher_suites ch)) in
     and_then (supported_version_extension ch) (\<lambda>sve.
     and_then (extensions ch sve) (\<lambda>exts.
     and_then (max_key Protocol_value (allowed_protocols ch)) (\<lambda>m.
     let client_hello_version = (if m = TLS_1_3 then TLS_1_2 else m) in
     and_then (join
       [Inr (Protocol_value client_hello_version),
        Inr client_random,
        Inr [0x20],
        Inr legacy_session_id,
        to_uint16 (int (length cipher_suites)),
        Inr cipher_suites,
        Inr [0x01],
        Inr [0x00],
        to_uint16 (int (length exts)),
        Inr exts]) (\<lambda>client_hello.
     and_then (join
       [Inr [0x01],
        to_uint24 (int (length client_hello)),
        Inr client_hello]) (\<lambda>handshake.
     let record_version = (if client_hello_version = SSLv3 then SSLv3 else TLS_1_0) in
     join
       [Inr [0x16],
        Inr (Protocol_value record_version),
        to_uint16 (int (length handshake)),
        Inr handshake]))))))"

text \<open>
  Reading an extensions block back: a sequence of
  \<open>{type: uint16, length: uint16, payload}\<close>, as the wire format defines it. It is used
  to say which extensions a packet carries, and in which order.
\<close>

fun parse_extensions :: "bytes \<Rightarrow> (int \<times> bytes) list option" where
  "parse_extensions [] = Some []"
| "parse_extensions (t1 # t2 # l1 # l2 # rest) =
     (let n = nat (from_uint8 [l1, l2])
      in if length rest < n then None
         else map_option ((#) (from_uint8 [t1, t2], take n rest)) (parse_extensions (drop n rest)))"
| "parse_extensions _ = None"

text \<open>Where the extensions block starts in the record that \<^verbatim>\<open>make_packet\<close> returns.\<close>

definition extensions_offset :: "ClientHello \<Rightarrow> nat" where
  "extensions_offset ch =
     5 + 4 + 2 + 32 + 1 + 32 + 2 + 2 * length (allowed_cipher_suites ch) + 1 + 1 + 2"


text \<open>
  The sizes for which every length field of the record is wide enough: at most 127
  protocol versions when the supported\_versions extension is built, and a handshake
  message (236 fixed bytes, two per cipher suite, the server name and the
  supported\_versions extension) of at most 65535 bytes.
\<close>

definition record_fits :: "ClientHello \<Rightarrow> bool" where
  "record_fits ch =
     ((TLS_1_3 \<in> set (allowed_protocols ch) \<longrightarrow> length (allowed_protocols ch) \<le> 127) \<and>
      236 + 2 * length (allowed_cipher_suites ch) + length (server_name ch) +
        (if TLS_1_3 \<in> set (allowed_protocols ch) then 5 + 2 * length (allowed_protocols ch) else 0)
        \<le> 65535)"

section \<open>Transport and \<^verbatim>\<open>ClientHello.send\<close>\<close>

text \<open>
  The socket is outside the program. It is a pair of functions over a state \<open>'w\<close> of the
  outside world: \<open>create_connection\<close> for \<^verbatim>\<open>socket.create_connection((host, port))\<close>
  and \<open>send_recv\<close> for \<^verbatim>\<open>s.send(packet)\<close> followed by \<^verbatim>\<open>s.recv(4096)\<close>; either may
  raise. The timeout only decides whether they raise, so it is not a parameter.
\<close>

record 'w transport =
  create_connection :: "'w \<Rightarrow> string \<Rightarrow> int \<Rightarrow> (error + unit) \<times> 'w"
  send_recv :: "'w \<Rightarrow> bytes \<Rightarrow> (error + bytes) \<times> 'w"

definition send ::
  "'w transport \<Rightarrow> ClientHello \<Rightarrow> int \<Rightarrow> string option \<Rightarrow> 'w \<Rightarrow> (error + ServerHello) \<times> 'w" where
  "send T ch port server_name_arg w =
     (let host = (case server_name_arg of None \<Rightarrow> server_name ch | Some n \<Rightarrow> n)
      in case create_connection T w host port of
           (Inl e, w1) \<Rightarrow> (Inl e, w1)
         | (Inr s, w1) \<Rightarrow>
             (case make_packet ch of
                Inl e \<Rightarrow> (Inl e, w1)
              | Inr packet \<Rightarrow>
                  (case send_recv T w1 packet of
                     (Inl e, w2) \<Rightarrow> (Inl e, w2)
                   | (Inr response, w2) \<Rightarrow> (from_packet (take 4096 response), w2))))"

section \<open>Enumeration driver\<close>

text \<open>
  \<^verbatim>\<open>int(s)\<close> for a \<^verbatim>\<open>str\<close>, base 10. The characters dropped at both ends are the
  ASCII ones of C's \<^verbatim>\<open>isspace\<close> (codes 9 to 13 and 32) and the non-ASCII spaces, of
  which the range of \<^typ>\<open>char\<close> holds U+0085 and U+00A0; the separators U+001C to
  U+001F are not dropped. One sign is allowed, then decimal digits, with single
  underscores between digits. More than \<open>int_max_str_digits\<close> digits (the interpreter's
  default limit) are refused. Every failure is a \<^verbatim>\<open>ValueError\<close>.
\<close>

definition is_space :: "char \<Rightarrow> bool" where
  "is_space c = ((of_char c :: nat) \<in> set [9, 10, 11, 12, 13, 32, 133, 160])"

definition is_digit :: "char \<Rightarrow> bool" where
  "is_digit c = (48 \<le> (of_char c :: nat) \<and> (of_char c :: nat) \<le> 57)"

definition int_max_str_digits :: nat where
  "int_max_str_digits = 4300"

fun parse_digits :: "bool \<Rightarrow> int \<Rightarrow> string \<Rightarrow> error + int" where
  "parse_digits prev_digit acc [] = (if prev_digit then Inr acc else Inl ValueError)"
| "parse_digits prev_digit acc (c # cs) =
     (if is_digit c then parse_digits True (acc * 10 + (of_char c - 48)) cs
      else if c = CHR ''_'' \<and> prev_digit then parse_digits False acc cs
      else Inl ValueError)"

definition int_of_str :: "string \<Rightarrow> error + int" where
  "int_of_str s =
     (case dropWhile is_space (rev (dropWhile is_space (rev s))) of
        [] \<Rightarrow> Inl ValueError
      | c # cs \<Rightarrow>
          let body = (if c = CHR ''-'' \<or> c = CHR ''+'' then cs else c # cs)
          in and_then (parse_digits False 0 body) (\<lambda>n.
               if int_max_str_digits < length (filter is_digit body) then Inl ValueError
               else Inr (if c = CHR ''-'' then - n else n)))"

text \<open>\<^verbatim>\<open>_parse_host\<close>; \<^verbatim>\<open>host.split(':', 1)\<close> cuts at the first colon.\<close>

definition parse_host :: "string \<Rightarrow> int \<Rightarrow> error + (string \<times> int)" where
  "parse_host host port =
     (if CHR '':'' \<in> set host then
        let name = takeWhile (\<lambda>c. c \<noteq> CHR '':'') host;
            port_str = drop 1 (dropWhile (\<lambda>c. c \<noteq> CHR '':'') host)
        in and_then (int_of_str port_str) (\<lambda>p. Inr (name, p))
      else Inr (host, port))"

text \<open>
  The worker \<^verbatim>\<open>enumerate_subset\<close> is a loop around one attempt. A worker is at one of
  four points: about to send with its remaining candidates; holding a ServerHello that
  it has not yet recorded; having raised an exception that the pool has not yet
  registered; finished.
\<close>

datatype worker =
    Running "CipherSuite list"
  | Received "CipherSuite list" ServerHello
  | Raising error
  | Done

text \<open>
  The \<^verbatim>\<open>except ServerError as e\<close> clause: \<^verbatim>\<open>handshake_failure\<close> breaks out of the
  loop, any other alert is raised again; an exception of another class is not caught.
\<close>

fun except_ServerError :: "error \<Rightarrow> worker" where
  "except_ServerError (ServerError p l a) =
     (if a = handshake_failure then Done else Raising (ServerError p l a))"
| "except_ServerError e = Raising e"

text \<open>
  The state of one \<^verbatim>\<open>pool.map\<close>: the workers, the shared list
  \<^verbatim>\<open>accepted_cipher_suites\<close>, the exception \<^verbatim>\<open>pool.map\<close> will raise (it keeps the
  first one registered and waits for every worker), and the outside world.
\<close>

record 'w pool =
  workers :: "worker list"
  accepted_cipher_suites :: "CipherSuite list"
  first_error :: "error option"
  world :: 'w

text \<open>
  One step of worker \<open>i\<close>. From \<open>Running\<close>: build the ClientHello, send it, and classify
  the outcome. From \<open>Received\<close>: append the cipher suite to the shared list, then remove
  it from the worker's own list (\<^verbatim>\<open>list.remove\<close> raises \<^verbatim>\<open>ValueError\<close> when it is
  not there). From \<open>Raising\<close>: the pool registers the exception.
\<close>

definition worker_step ::
  "'w transport \<Rightarrow> string \<Rightarrow> Protocol \<Rightarrow> int \<Rightarrow> 'w pool \<Rightarrow> nat \<Rightarrow> 'w pool" where
  "worker_step T name proto port st i =
     (if length (workers st) \<le> i then st
      else case workers st ! i of
        Running remaining_cipher_suites \<Rightarrow>
          (let client_hello = \<lparr>server_name = name, allowed_protocols = [proto],
                               allowed_cipher_suites = remaining_cipher_suites\<rparr>
           in case send T client_hello port None (world st) of
                (Inl e, w) \<Rightarrow>
                  st\<lparr>workers := (workers st)[i := except_ServerError e], world := w\<rparr>
              | (Inr server_hello, w) \<Rightarrow>
                  st\<lparr>workers := (workers st)[i := Received remaining_cipher_suites server_hello],
                     world := w\<rparr>)
      | Received remaining_cipher_suites server_hello \<Rightarrow>
          (let accepted = accepted_cipher_suites st @ [cipher_suite server_hello]
           in if cipher_suite server_hello \<in> set remaining_cipher_suites
              then st\<lparr>workers := (workers st)
                          [i := Running (remove1 (cipher_suite server_hello) remaining_cipher_suites)],
                      accepted_cipher_suites := accepted\<rparr>
              else st\<lparr>workers := (workers st)[i := Raising ValueError],
                      accepted_cipher_suites := accepted\<rparr>)
      | Raising e \<Rightarrow>
          st\<lparr>workers := (workers st)[i := Done],
             first_error := (case first_error st of None \<Rightarrow> Some e | Some e0 \<Rightarrow> Some e0)\<rparr>
      | Done \<Rightarrow> st)"

fun worker_measure :: "worker \<Rightarrow> nat" where
  "worker_measure (Running remaining) = 3 * length remaining + 3"
| "worker_measure (Received remaining sh) = 3 * length remaining + 2"
| "worker_measure (Raising e) = 1"
| "worker_measure Done = 0"

text \<open>Worker \<open>i\<close> runs until it has finished: the \<^verbatim>\<open>while True\<close> of the source.\<close>

function finish_worker ::
  "'w transport \<Rightarrow> string \<Rightarrow> Protocol \<Rightarrow> int \<Rightarrow> 'w pool \<Rightarrow> nat \<Rightarrow> 'w pool" where
  "finish_worker T name proto port st i =
     (if i < length (workers st) \<and> workers st ! i \<noteq> Done
      then finish_worker T name proto port (worker_step T name proto port st i) i
      else st)"
  by pat_completeness auto
termination
proof (relation "measure (\<lambda>(T, name, proto, port, st, i). worker_measure (workers st ! i))")
  show "wf (measure (\<lambda>(T :: 'w transport, name :: string, proto :: Protocol, port :: int,
                      st :: 'w pool, i). worker_measure (workers st ! i)))"
    by simp
next
  fix T :: "'w transport" and name proto port and st :: "'w pool" and i
  assume a: "i < length (workers st) \<and> workers st ! i \<noteq> Done"
  have "worker_measure (workers (worker_step T name proto port st i) ! i)
          < worker_measure (workers st ! i)"
  proof (cases "workers st ! i")
    case (Running remaining)
    obtain r w where s: "send T \<lparr>server_name = name, allowed_protocols = [proto],
        allowed_cipher_suites = remaining\<rparr> port None (world st) = (r, w)"
      by (cases "send T \<lparr>server_name = name, allowed_protocols = [proto],
        allowed_cipher_suites = remaining\<rparr> port None (world st)")
    show ?thesis
    proof (cases r)
      case (Inl e)
      then show ?thesis
        using a Running s by (cases e) (simp_all add: worker_step_def)
    next
      case (Inr sh)
      then show ?thesis
        using a Running s by (simp add: worker_step_def)
    qed
  next
    case (Received remaining sh)
    show ?thesis
    proof (cases "cipher_suite sh \<in> set remaining")
      case True
      then have "0 < length remaining" by (rule length_pos_if_in_set)
      then have "Suc (3 * (length remaining - Suc 0)) < 3 * length remaining" by arith
      then show ?thesis
        using a Received True by (simp add: worker_step_def Let_def length_remove1)
    next
      case False
      then show ?thesis
        using a Received by (simp add: worker_step_def Let_def)
    qed
  next
    case (Raising e)
    then show ?thesis using a by (simp add: worker_step_def)
  next
    case Done
    then show ?thesis using a by simp
  qed
  then show "((T, name, proto, port, worker_step T name proto port st i, i),
              (T, name, proto, port, st, i))
             \<in> measure (\<lambda>(T, name, proto, port, st, i). worker_measure (workers st ! i))"
    by simp
qed

declare finish_worker.simps [simp del]

text \<open>
  \<^verbatim>\<open>pool.map(enumerate_subset, cipher_suite_parts)\<close>. The workers run concurrently; which
  worker moves next is not decided by the program. The schedule \<open>sched\<close> lists the
  workers in the order in which they take their steps; when it is used up, the workers
  still running are completed one after the other, which is one of the possible orders.
  \<^verbatim>\<open>pool.map\<close> returns only when every worker has finished.
\<close>

definition pool_map ::
  "'w transport \<Rightarrow> string \<Rightarrow> Protocol \<Rightarrow> int \<Rightarrow> nat list \<Rightarrow> 'w pool \<Rightarrow> 'w pool" where
  "pool_map T name proto port sched st =
     foldl (finish_worker T name proto port)
       (foldl (worker_step T name proto port) st sched)
       [0..<length (workers st)]"

text \<open>The partition \<^verbatim>\<open>cipher_suite_parts\<close>: by index modulo the number of workers.\<close>

definition cipher_suite_parts :: "nat \<Rightarrow> CipherSuite list list" where
  "cipher_suite_parts max_workers =
     map (\<lambda>n. map snd (filter (\<lambda>(i, c). i mod max_workers = n) (enumerate 0 CipherSuite_members)))
       [0..<max_workers]"

definition initial_pool :: "nat \<Rightarrow> 'w \<Rightarrow> 'w pool" where
  "initial_pool max_workers w =
     \<lparr>workers = map Running (cipher_suite_parts max_workers), accepted_cipher_suites = [],
      first_error = None, world = w\<rparr>"

text \<open>
  What the call does once the pool has finished: \<^verbatim>\<open>pool.map\<close> raises the registered
  exception if there is one; otherwise an empty list of accepted suites is a
  \<^verbatim>\<open>ValueError\<close>, and a non-empty one is returned.
\<close>

definition pool_result :: "'w pool \<Rightarrow> error + CipherSuite list" where
  "pool_result st =
     (case first_error st of
        Some e \<Rightarrow> Inl e
      | None \<Rightarrow>
          if accepted_cipher_suites st = [] then Inl ValueError
          else Inr (accepted_cipher_suites st))"

text \<open>
  \<^verbatim>\<open>enumerate_ciphers_suites\<close>. \<^verbatim>\<open>ThreadPool(max_workers)\<close> raises \<^verbatim>\<open>ValueError\<close>
  when \<^verbatim>\<open>max_workers\<close> is below 1.
\<close>

definition enumerate_ciphers_suites ::
  "'w transport \<Rightarrow> nat list \<Rightarrow> 'w \<Rightarrow> string \<Rightarrow> Protocol \<Rightarrow> int \<Rightarrow> int \<Rightarrow> error + CipherSuite list"
  where
  "enumerate_ciphers_suites T sched w host proto port max_workers =
     and_then (parse_host host port) (\<lambda>(name, port1).
       if max_workers < 1 then Inl ValueError
       else pool_result
              (pool_map T name proto port1 sched (initial_pool (nat max_workers) w)))"

text \<open>
  Two servers to run the driver against. The first answers every ClientHello with a
  fatal alert of the given description. The second accepts
  \<open>TLS_AES_128_GCM_SHA256\<close> on the first connection and answers every later one with
  \<open>handshake_failure\<close>; its state counts the connections.
\<close>

definition alert_server :: "byte \<Rightarrow> unit transport" where
  "alert_server description =
     \<lparr>create_connection = (\<lambda>w host port. (Inr (), w)),
      send_recv = (\<lambda>w packet. (Inr [0x15, 0x03, 0x03, 0x00, 0x02, 0x02, description], w))\<rparr>"

definition one_suite_server :: "nat transport" where
  "one_suite_server =
     \<lparr>create_connection = (\<lambda>w host port. (Inr (), w)),
      send_recv = (\<lambda>w packet.
        (Inr (if w = 0
              then [0x16, 0x03, 0x03, 0x00, 0x30, 0x02, 0x00, 0x00, 0x2c, 0x03, 0x03] @
                   replicate 32 0 @ [0x00, 0x13, 0x01]
              else [0x15, 0x03, 0x03, 0x00, 0x02, 0x02, 0x28]), Suc w))\<rparr>"

section \<open>Properties of the decoder\<close>


lemma Protocol_of_value: "Protocol_of (Protocol_value p) = Inr p"
  by (cases p) (simp_all add: Protocol_of_def enum_lookup_def Protocol_members_def)

lemma CipherSuite_of_value: "CipherSuite_of (CipherSuite_value c) = Inr c"
  by (cases c) (simp_all add: CipherSuite_of_def enum_lookup_def CipherSuite_members_def)

lemma enum_lookup_Inr: "enum_lookup val ms v = Inr m \<Longrightarrow> val m = v \<and> m \<in> set ms"
  by (auto simp: enum_lookup_def find_Some_iff split: option.splits)

lemma enum_lookup_Inl: "enum_lookup val ms v = Inl e \<Longrightarrow> e = ValueError \<and> v \<notin> val ` set ms"
  by (auto simp: enum_lookup_def find_None_iff split: option.splits)

lemma byte_256: "(256 :: byte) = 0" by simp

lemma word_of_int_two_bytes: "(word_of_int (uint a * 256 + uint b) :: byte) = b" for a b :: byte
proof -
  have "(word_of_int (uint a * 256 + uint b) :: byte) = a * 256 + b" by simp
  also have "\<dots> = a * 0 + b" by (simp only: byte_256)
  finally show ?thesis by simp
qed

lemma from_uint8_two: "from_uint8 [a, b] = uint a * 256 + uint b"
  by (simp add: from_uint8_def)

lemma from_uint8_two_range: "0 \<le> from_uint8 [a, b] \<and> from_uint8 [a, b] < 65536"
  using uint_lt2p [of a] uint_lt2p [of b] by (simp add: from_uint8_two)

lemma to_uint16_from_uint8: "to_uint16 (from_uint8 [a, b]) = Inr [a, b]"
proof -
  have d: "(uint a * 256 + uint b) div 256 = uint a"
    using uint_lt2p [of b] by simp
  have r: "0 \<le> uint a * 256 + uint b" "uint a * 256 + uint b < 65536"
    using from_uint8_two_range [of a b] by (simp_all only: from_uint8_two)
  show ?thesis
    by (simp only: to_uint16_def from_uint8_two r simp_thms if_True d
        word_of_int_two_bytes word_of_int_uint)
qed

lemma take2_drop: "n + 2 \<le> length xs \<Longrightarrow> take 2 (drop n xs) = [xs ! n, xs ! (n + 1)]"
  by (simp add: numeral_2_eq_2 take_Suc_conv_app_nth)


lemma from_packet_short: "packet \<noteq> [] \<Longrightarrow> packet ! 0 = 0x16 \<Longrightarrow> length packet < begin_length \<Longrightarrow> from_packet packet = Inl StructError"
  by (simp add: from_packet_def and_then_def unpack_begin_def)

lemma from_packet_Inr_checks:
  "packet \<noteq> [] \<Longrightarrow> packet ! 0 = 0x16 \<Longrightarrow> from_packet packet = Inr r \<Longrightarrow>
   \<exists>f. unpack_begin (take begin_length packet) = Inr f \<and>
       legacy_record_version f \<in> {0x0301, 0x0302, 0x0303} \<and> handshake_type f = 0x02 \<and>
       server_version_int f \<in> {0x0301, 0x0302, 0x0303} \<and> session_id_length f \<in> {0, 0x20}"
  by (cases "unpack_begin (take begin_length packet)")
     (auto simp: from_packet_def and_then_def split: if_splits)

lemma from_packet_check_fails:
  "packet \<noteq> [] \<Longrightarrow> packet ! 0 = 0x16 \<Longrightarrow> unpack_begin (take begin_length packet) = Inr f \<Longrightarrow>
   \<not> (legacy_record_version f \<in> {0x0301, 0x0302, 0x0303} \<and> handshake_type f = 0x02 \<and>
       server_version_int f \<in> {0x0301, 0x0302, 0x0303} \<and> session_id_length f \<in> {0, 0x20}) \<Longrightarrow>
   from_packet packet = Inl AssertionError"
  by (auto simp: from_packet_def and_then_def split: if_splits)

lemma Protocol_value_two: "\<exists>a b. Protocol_value p = [a, b]"
  by (cases p) simp_all

lemma CipherSuite_value_length: "length (CipherSuite_value c) = 2"
  by (cases c) simp_all

lemma to_uint16_Protocol_value: "to_uint16 (from_uint8 (Protocol_value p)) = Inr (Protocol_value p)"
  using Protocol_value_two [of p] by (auto simp: to_uint16_from_uint8)

lemma unpack_begin_record:
  assumes "length hlen = 2" "length shlen = 3" "length random = 32"
  shows "unpack_begin ([0x16] @ Protocol_value v @ hlen @ [0x02] @ shlen @ Protocol_value p @ random @ [n]) =
    Inr \<lparr>record_type = 0x16, legacy_record_version = from_uint8 (Protocol_value v),
         handshake_length = from_uint8 hlen, handshake_type = 0x02, server_hello_length = shlen,
         server_version_int = from_uint8 (Protocol_value p), server_random = random,
         session_id_length = uint n\<rparr>"
proof -
  obtain h1 h2 where h: "hlen = [h1, h2]"
    using assms(1) by (auto simp: length_Suc_conv numeral_2_eq_2)
  obtain s1 s2 s3 where s: "shlen = [s1, s2, s3]"
    using assms(2) by (auto simp: length_Suc_conv numeral_3_eq_3)
  obtain a b where v: "Protocol_value v = [a, b]" using Protocol_value_two by blast
  obtain c d where p: "Protocol_value p = [c, d]" using Protocol_value_two by blast
  show ?thesis
    using assms(3) by (simp add: unpack_begin_def begin_length_def h s v p nth_append)
qed


lemma from_uint8_Protocol_value_checked:
  "p \<in> {TLS_1_0, TLS_1_1, TLS_1_2} \<Longrightarrow> from_uint8 (Protocol_value p) \<in> {0x0301, 0x0302, 0x0303}"
  by (auto simp: from_uint8_def)

lemma from_packet_alert_short:
  "packet \<noteq> [] \<Longrightarrow> packet ! 0 = 0x15 \<Longrightarrow> length packet < 7 \<Longrightarrow> from_packet packet = Inl StructError"
  by (auto simp: from_packet_def and_then_def unpack_BHH_def unpack_BB_def)

lemma from_packet_alert_long:
  assumes "packet \<noteq> []" "packet ! 0 = 0x15" "7 \<le> length packet"
  shows "from_packet packet =
     and_then (Protocol_of (take 2 (drop 1 packet))) (\<lambda>p.
     and_then (AlertLevel_of (uint (packet ! 5))) (\<lambda>level.
     and_then (AlertDescription_of (uint (packet ! 6))) (\<lambda>alert.
     Inl (ServerError p level alert))))"
proof -
  have t: "take 2 (drop (Suc 0) (take 5 packet)) = [packet ! Suc 0, packet ! 2]"
    using assms(3) take2_drop [of "Suc 0" "take 5 packet"] by (simp add: numeral_2_eq_2)
  have t': "take 2 (drop (Suc 0) packet) = [packet ! Suc 0, packet ! 2]"
    using assms(3) take2_drop [of "Suc 0" packet] by (simp add: numeral_2_eq_2)
  have u: "unpack_BHH (take 5 packet) =
      Inr (0x15, from_uint8 [packet ! Suc 0, packet ! 2], from_uint8 (take 2 (drop 3 (take 5 packet))))"
    using assms by (simp add: unpack_BHH_def t)
  have b: "unpack_BB (take 2 (drop 5 packet)) = Inr (uint (packet ! 5), uint (packet ! 6))"
    using assms(3) take2_drop [of 5 packet] by (simp add: unpack_BB_def)
  show ?thesis
    using assms(1,2) by (simp add: from_packet_def u b and_then_def to_uint16_from_uint8 t')
qed

lemma from_packet_alert_never_returns:
  "packet \<noteq> [] \<Longrightarrow> packet ! 0 = 0x15 \<Longrightarrow> from_packet packet \<noteq> Inr r"
  by (cases "7 \<le> length packet")
     (auto simp: from_packet_alert_long from_packet_alert_short and_then_def split: sum.splits)

lemma from_packet_other_type:
  "packet \<noteq> [] \<Longrightarrow> packet ! 0 \<noteq> 0x15 \<Longrightarrow> packet ! 0 \<noteq> 0x16 \<Longrightarrow> from_packet packet = Inl AssertionError"
  by (simp add: from_packet_def)


lemma enum_lookup_unknown: "v \<notin> range val \<Longrightarrow> enum_lookup val ms v = Inl ValueError"
  by (auto simp: enum_lookup_def find_None_iff split: option.splits)

lemma enum_lookup_total: "enum_lookup val ms v = Inl ValueError \<or> (\<exists>m. enum_lookup val ms v = Inr m \<and> val m = v)"
  by (auto simp: enum_lookup_def find_Some_iff split: option.splits)

lemma from_packet_valid_begin:
  assumes "packet \<noteq> []" "packet ! 0 = 0x16" "unpack_begin (take begin_length packet) = Inr f"
    "legacy_record_version f \<in> {0x0301, 0x0302, 0x0303}" "handshake_type f = 0x02"
    "server_version_int f \<in> {0x0301, 0x0302, 0x0303}" "session_id_length f \<in> {0, 32}"
  shows "from_packet packet =
     and_then (to_uint16 (server_version_int f)) (\<lambda>v.
     and_then (Protocol_of v) (\<lambda>p.
     and_then (CipherSuite_of (take 2 (drop (begin_length + nat (session_id_length f)) packet))) (\<lambda>c.
     Inr \<lparr>protocol = p, cipher_suite = c\<rparr>)))"
proof -
  have "record_type f = 0x16"
    using assms(1,2,3) by (auto simp: unpack_begin_def begin_length_def split: if_splits)
  then show ?thesis
    using assms by (simp add: from_packet_def and_then_def Let_def)
qed

lemma to_uint16_version_known:
  "sv \<in> {0x0301, 0x0302, 0x0303} \<Longrightarrow> \<exists>p. and_then (to_uint16 sv) Protocol_of = Inr p \<and> to_uint16 sv = Inr (Protocol_value p)"
  by (elim insertE emptyE)
     (simp_all add: to_uint16_def and_then_def Protocol_of_def enum_lookup_def Protocol_members_def)

lemma and_then_Inr: "and_then r f = Inr y \<longleftrightarrow> (\<exists>x. r = Inr x \<and> f x = Inr y)"
  by (cases r) (simp_all add: and_then_def)

lemma and_then_Inl: "and_then r f = Inl e \<longleftrightarrow> r = Inl e \<or> (\<exists>x. r = Inr x \<and> f x = Inl e)"
  by (cases r) (simp_all add: and_then_def)

lemma Protocol_of_Inr: "Protocol_of v = Inr p \<Longrightarrow> Protocol_value p = v"
  by (auto simp: Protocol_of_def dest: enum_lookup_Inr)

lemma CipherSuite_of_Inr: "CipherSuite_of v = Inr c \<Longrightarrow> CipherSuite_value c = v"
  by (auto simp: CipherSuite_of_def dest: enum_lookup_Inr)

lemma AlertLevel_of_Inr: "AlertLevel_of v = Inr l \<Longrightarrow> AlertLevel_value l = v"
  by (auto simp: AlertLevel_of_def dest: enum_lookup_Inr)

lemma AlertDescription_of_Inr: "AlertDescription_of v = Inr a \<Longrightarrow> AlertDescription_value a = v"
  by (auto simp: AlertDescription_of_def dest: enum_lookup_Inr)

lemma handshake_branch_no_ServerError:
  "and_then (to_uint16 sv) (\<lambda>v. and_then (Protocol_of v) (\<lambda>p.
     and_then (CipherSuite_of cs) (\<lambda>c. Inr \<lparr>protocol = p, cipher_suite = c\<rparr>))) \<noteq>
   Inl (ServerError p l a)"
  by (auto simp: and_then_Inl to_uint16_def Protocol_of_def CipherSuite_of_def
      dest: enum_lookup_Inl split: if_splits)

text \<open>
  Claim C3. For a buffer whose first byte is 0x16, the decoder returns a ServerHello only
  if the 44-byte prefix unpacks and legacy\_record\_version is one of 0x0301, 0x0302,
  0x0303 (TLS 1.0, 1.1, 1.2), handshake\_type is 2, server\_version is one of the same
  three codes and session\_id\_length is 0 or 32. A buffer that unpacks and violates
  one of these checks fails with \<open>AssertionError\<close>; a buffer too short to unpack fails
  with \<open>StructError\<close>. In neither case is a ServerHello produced.
\<close>

theorem from_packet_handshake_validation:
  assumes "packet \<noteq> []" and "packet ! 0 = 0x16"
  shows "(\<forall>r. from_packet packet = Inr r \<longrightarrow>
            (\<exists>f. unpack_begin (take begin_length packet) = Inr f \<and>
                 legacy_record_version f \<in> {0x0301, 0x0302, 0x0303} \<and> handshake_type f = 0x02 \<and>
                 server_version_int f \<in> {0x0301, 0x0302, 0x0303} \<and>
                 session_id_length f \<in> {0, 32})) \<and>
         (\<forall>f. unpack_begin (take begin_length packet) = Inr f \<and>
              \<not> (legacy_record_version f \<in> {0x0301, 0x0302, 0x0303} \<and> handshake_type f = 0x02 \<and>
                 server_version_int f \<in> {0x0301, 0x0302, 0x0303} \<and>
                 session_id_length f \<in> {0, 32}) \<longrightarrow>
              from_packet packet = Inl AssertionError) \<and>
         (length packet < begin_length \<longrightarrow> from_packet packet = Inl StructError)"
  using assms from_packet_Inr_checks [OF assms] from_packet_check_fails [OF assms]
    from_packet_short [OF assms]
  by simp

theorem from_packet_handshake_validation_witness:
  "from_packet ([0x16, 0x03, 0x03, 0x00, 0x30, 0x02, 0x00, 0x00, 0x2c, 0x03, 0x03] @
                replicate 32 0 @ [0x05, 0x13, 0x01]) = Inl AssertionError \<and>
   from_packet [0x16, 0x03, 0x03] = Inl StructError"
proof -
  let ?p = "[0x16, 0x03, 0x03, 0x00, 0x30, 0x02, 0x00, 0x00, 0x2c, 0x03, 0x03] @
                replicate 32 0 @ [0x05, 0x13, 0x01 :: byte]"
  have u: "unpack_begin (take begin_length ?p) =
     Inr \<lparr>record_type = 0x16, legacy_record_version = 0x0303, handshake_length = 0x30,
          handshake_type = 0x02, server_hello_length = [0x00, 0x00, 0x2c],
          server_version_int = 0x0303, server_random = replicate 32 0,
          session_id_length = 5\<rparr>"
    by (simp add: unpack_begin_def begin_length_def from_uint8_def nth_append)
  have a: "from_packet ?p = Inl AssertionError"
    using from_packet_handshake_validation [of ?p] u by simp
  have b: "from_packet [0x16, 0x03, 0x03] = Inl StructError"
    using from_packet_handshake_validation [of "[0x16, 0x03, 0x03]"]
    by (simp add: begin_length_def)
  show ?thesis using a b by simp
qed

text \<open>
  Claim C4. Round trip: for every server version \<open>p\<close> among TLS 1.0, 1.1 and 1.2, every
  cipher suite \<open>c\<close> and a session id of length 0 or 32, decoding a synthetic handshake
  record that carries the code of \<open>p\<close> in the server version field and the code of \<open>c\<close>
  right after the session id returns protocol \<open>p\<close> and cipher suite \<open>c\<close>.
\<close>

theorem from_packet_roundtrip:
  assumes v: "v \<in> {TLS_1_0, TLS_1_1, TLS_1_2}" and p: "p \<in> {TLS_1_0, TLS_1_1, TLS_1_2}"
    and l: "length hlen = 2" "length shlen = 3" "length random = 32"
    and sid: "length sid = 0 \<or> length sid = 32"
  shows "from_packet (server_hello_record v hlen shlen p random sid c rest) =
           Inr \<lparr>protocol = p, cipher_suite = c\<rparr>"
proof -
  define pre where "pre = [0x16] @ Protocol_value v @ hlen @ [0x02] @ shlen @ Protocol_value p @ random @
     [word_of_nat (length sid) :: byte]"
  define packet where "packet = server_hello_record v hlen shlen p random sid c rest"
  have packet: "packet = pre @ sid @ CipherSuite_value c @ rest"
    by (simp add: packet_def pre_def server_hello_record_def)
  obtain a b where pv: "Protocol_value v = [a, b]" using Protocol_value_two by blast
  obtain a' b' where pp: "Protocol_value p = [a', b']" using Protocol_value_two by blast
  have len: "length pre = begin_length"
    using l by (simp add: pre_def begin_length_def pv pp)
  have tk: "take begin_length packet = pre"
    by (simp add: packet len)
  have hd: "packet \<noteq> []" "packet ! 0 = 0x16"
    by (simp_all add: packet pre_def)
  have n: "uint (word_of_nat (length sid) :: byte) = int (length sid)"
    using sid by auto
  have up: "unpack_begin (take begin_length packet) =
    Inr \<lparr>record_type = 0x16, legacy_record_version = from_uint8 (Protocol_value v),
         handshake_length = from_uint8 hlen, handshake_type = 0x02, server_hello_length = shlen,
         server_version_int = from_uint8 (Protocol_value p), server_random = random,
         session_id_length = int (length sid)\<rparr>"
    unfolding tk pre_def using unpack_begin_record [OF l] n by simp
  have cs: "take 2 (drop (begin_length + length sid) packet) = CipherSuite_value c"
    by (simp add: packet len CipherSuite_value_length)
  have "from_packet packet = Inr \<lparr>protocol = p, cipher_suite = c\<rparr>"
    using hd sid from_uint8_Protocol_value_checked [OF v] from_uint8_Protocol_value_checked [OF p]
    by (auto simp: from_packet_def up and_then_def cs to_uint16_Protocol_value
        Protocol_of_value CipherSuite_of_value)
  then show ?thesis by (simp add: packet_def)
qed

theorem from_packet_roundtrip_witness:
  "from_packet (server_hello_record TLS_1_2 [0x00, 0x30] [0x00, 0x00, 0x2c] TLS_1_1
      (replicate 32 0x07) (replicate 32 0x09) TLS_RSA_WITH_AES_128_GCM_SHA256 [0x00, 0x00]) =
   Inr \<lparr>protocol = TLS_1_1, cipher_suite = TLS_RSA_WITH_AES_128_GCM_SHA256\<rparr>"
  using from_packet_roundtrip [of TLS_1_2 TLS_1_1 "[0x00, 0x30]" "[0x00, 0x00, 0x2c]"
      "replicate 32 0x07" "replicate 32 0x09" TLS_RSA_WITH_AES_128_GCM_SHA256 "[0x00, 0x00]"]
  by simp

text \<open>
  Claim C5, as stated, fails: a buffer that starts with 0x15 and is too short to hold an
  alert makes the decoder fail with \<open>StructError\<close>, not with a \<open>ServerError\<close>.
\<close>

theorem from_packet_alert_counterexample:
  "[0x15 :: byte] \<noteq> [] \<and> [0x15 :: byte] ! 0 = 0x15 \<and>
   (\<forall>p l a. from_packet [0x15] \<noteq> Inl (ServerError p l a)) \<and> from_packet [0x15] = Inl StructError"
  by (simp add: from_packet_def unpack_BHH_def and_then_def)

text \<open>
  Claim C5, amended. The decoder fails with \<open>ValueError\<close> on the empty buffer. On a
  buffer whose first byte is 0x15 it never returns normally: with fewer than 7 bytes it
  fails with \<open>StructError\<close>; with at least 7 bytes it raises the \<open>ServerError\<close> built
  from the protocol, alert level and alert description that the codes map to when all
  three codes are enumerated, and fails with \<open>ValueError\<close> otherwise. On a buffer whose
  first byte is neither 0x15 nor 0x16 it fails with \<open>AssertionError\<close>.
\<close>

theorem from_packet_dispatch:
  "from_packet [] = Inl ValueError \<and>
   (packet \<noteq> [] \<and> packet ! 0 = 0x15 \<longrightarrow>
      (\<forall>r. from_packet packet \<noteq> Inr r) \<and>
      (length packet < 7 \<longrightarrow> from_packet packet = Inl StructError) \<and>
      (7 \<le> length packet \<longrightarrow>
         (\<forall>p l a. Protocol_of (take 2 (drop 1 packet)) = Inr p \<and>
                  AlertLevel_of (uint (packet ! 5)) = Inr l \<and>
                  AlertDescription_of (uint (packet ! 6)) = Inr a \<longrightarrow>
                  from_packet packet = Inl (ServerError p l a)) \<and>
         ((\<forall>p. Protocol_of (take 2 (drop 1 packet)) \<noteq> Inr p) \<or>
          (\<forall>l. AlertLevel_of (uint (packet ! 5)) \<noteq> Inr l) \<or>
          (\<forall>a. AlertDescription_of (uint (packet ! 6)) \<noteq> Inr a) \<longrightarrow>
          from_packet packet = Inl ValueError))) \<and>
   (packet \<noteq> [] \<and> packet ! 0 \<noteq> 0x15 \<and> packet ! 0 \<noteq> 0x16 \<longrightarrow>
      from_packet packet = Inl AssertionError)"
proof -
  have e: "from_packet [] = Inl ValueError" by (simp add: from_packet_def)
  have P: "Protocol_of v = Inl ValueError \<or> (\<exists>m. Protocol_of v = Inr m)" for v
    using enum_lookup_total [of Protocol_value Protocol_members v] by (auto simp: Protocol_of_def)
  have L: "AlertLevel_of v = Inl ValueError \<or> (\<exists>m. AlertLevel_of v = Inr m)" for v
    using enum_lookup_total [of AlertLevel_value AlertLevel_members v] by (auto simp: AlertLevel_of_def)
  have D: "AlertDescription_of v = Inl ValueError \<or> (\<exists>m. AlertDescription_of v = Inr m)" for v
    using enum_lookup_total [of AlertDescription_value AlertDescription_members v]
    by (auto simp: AlertDescription_of_def)
  have a: "from_packet packet = Inl (ServerError p l a)"
    if "packet \<noteq> []" "packet ! 0 = 0x15" "7 \<le> length packet"
       "Protocol_of (take 2 (drop 1 packet)) = Inr p" "AlertLevel_of (uint (packet ! 5)) = Inr l"
       "AlertDescription_of (uint (packet ! 6)) = Inr a" for p l a
    using that by (simp add: from_packet_alert_long and_then_def)
  have b: "from_packet packet = Inl ValueError"
    if "packet \<noteq> []" "packet ! 0 = 0x15" "7 \<le> length packet"
       "(\<forall>p. Protocol_of (take 2 (drop 1 packet)) \<noteq> Inr p) \<or>
          (\<forall>l. AlertLevel_of (uint (packet ! 5)) \<noteq> Inr l) \<or>
          (\<forall>a. AlertDescription_of (uint (packet ! 6)) \<noteq> Inr a)"
    using that P [of "take 2 (drop 1 packet)"] L [of "uint (packet ! 5)"] D [of "uint (packet ! 6)"]
    by (auto simp: from_packet_alert_long and_then_def)
  show ?thesis
    using e a b from_packet_alert_never_returns [of packet] from_packet_alert_short [of packet]
      from_packet_other_type [of packet]
    by blast
qed

theorem from_packet_dispatch_witness:
  "from_packet [0x15, 0x03, 0x03, 0x00, 0x02, 0x02, 0x28] =
     Inl (ServerError TLS_1_2 FATAL handshake_failure) \<and>
   from_packet [0x17, 0x03, 0x03] = Inl AssertionError"
proof -
  let ?p = "[0x15, 0x03, 0x03, 0x00, 0x02, 0x02, 0x28 :: byte]"
  have 1: "Protocol_of (take 2 (drop 1 ?p)) = Inr TLS_1_2"
    by (simp add: Protocol_of_def enum_lookup_def Protocol_members_def)
  have 2: "AlertLevel_of (uint (?p ! 5)) = Inr FATAL"
    by (simp add: AlertLevel_of_def enum_lookup_def AlertLevel_members_def)
  have 3: "AlertDescription_of (uint (?p ! 6)) = Inr handshake_failure"
    by (simp add: AlertDescription_of_def enum_lookup_def AlertDescription_members_def)
  have a: "from_packet ?p = Inl (ServerError TLS_1_2 FATAL handshake_failure)"
    using from_packet_dispatch [of ?p] 1 2 3 by simp
  have b: "from_packet [0x17, 0x03, 0x03] = Inl AssertionError"
    using from_packet_dispatch [of "[0x17, 0x03, 0x03]"] by simp
  show ?thesis using a b by simp
qed

text \<open>
  Claim C9. A handshake buffer that passes the structural checks and whose two bytes
  after the session id are not the code of a cipher suite fails with \<open>ValueError\<close>;
  so does an alert buffer of at least 7 bytes whose level or description code is not
  enumerated. \<open>ValueError\<close> is not a \<open>ServerError\<close>. Every ServerHello returned
  and every \<open>ServerError\<close> raised holds members whose codes are the ones in the buffer.
\<close>

theorem from_packet_unknown_code:
  "(packet \<noteq> [] \<and> packet ! 0 = 0x16 \<and> unpack_begin (take begin_length packet) = Inr f \<and>
    legacy_record_version f \<in> {0x0301, 0x0302, 0x0303} \<and> handshake_type f = 0x02 \<and>
    server_version_int f \<in> {0x0301, 0x0302, 0x0303} \<and> session_id_length f \<in> {0, 32} \<and>
    take 2 (drop (begin_length + nat (session_id_length f)) packet) \<notin> range CipherSuite_value \<longrightarrow>
      from_packet packet = Inl ValueError) \<and>
   (packet \<noteq> [] \<and> packet ! 0 = 0x15 \<and> 7 \<le> length packet \<and>
    (uint (packet ! 5) \<notin> range AlertLevel_value \<or>
     uint (packet ! 6) \<notin> range AlertDescription_value) \<longrightarrow>
      from_packet packet = Inl ValueError) \<and>
   (\<forall>r. from_packet packet = Inr r \<longrightarrow>
      (\<exists>f. unpack_begin (take begin_length packet) = Inr f \<and>
           to_uint16 (server_version_int f) = Inr (Protocol_value (protocol r)) \<and>
           take 2 (drop (begin_length + nat (session_id_length f)) packet) =
             CipherSuite_value (cipher_suite r))) \<and>
   (\<forall>p l a. from_packet packet = Inl (ServerError p l a) \<longrightarrow>
      take 2 (drop 1 packet) = Protocol_value p \<and> uint (packet ! 5) = AlertLevel_value l \<and>
      uint (packet ! 6) = AlertDescription_value a)"
proof -
  have P: "Protocol_of v = Inl ValueError \<or> (\<exists>m. Protocol_of v = Inr m \<and> Protocol_value m = v)" for v
    using enum_lookup_total [of Protocol_value Protocol_members v] by (auto simp: Protocol_of_def)
  have C: "CipherSuite_of v = Inl ValueError \<or> (\<exists>m. CipherSuite_of v = Inr m \<and> CipherSuite_value m = v)" for v
    using enum_lookup_total [of CipherSuite_value CipherSuite_members v] by (auto simp: CipherSuite_of_def)
  have L: "AlertLevel_of v = Inl ValueError \<or> (\<exists>m. AlertLevel_of v = Inr m \<and> AlertLevel_value m = v)" for v
    using enum_lookup_total [of AlertLevel_value AlertLevel_members v] by (auto simp: AlertLevel_of_def)
  have D: "AlertDescription_of v = Inl ValueError \<or>
           (\<exists>m. AlertDescription_of v = Inr m \<and> AlertDescription_value m = v)" for v
    using enum_lookup_total [of AlertDescription_value AlertDescription_members v]
    by (auto simp: AlertDescription_of_def)
  have 1: "from_packet packet = Inl ValueError"
    if h: "packet \<noteq> []" "packet ! 0 = 0x16" "unpack_begin (take begin_length packet) = Inr f"
    "legacy_record_version f \<in> {0x0301, 0x0302, 0x0303}" "handshake_type f = 0x02"
    "server_version_int f \<in> {0x0301, 0x0302, 0x0303}" "session_id_length f \<in> {0, 32}"
    "take 2 (drop (begin_length + nat (session_id_length f)) packet) \<notin> range CipherSuite_value"
  proof -
    have c: "CipherSuite_of (take 2 (drop (begin_length + nat (session_id_length f)) packet)) = Inl ValueError"
      using h(8) by (simp add: CipherSuite_of_def enum_lookup_unknown)
    obtain p where "and_then (to_uint16 (server_version_int f)) Protocol_of = Inr p"
      using to_uint16_version_known [OF h(6)] by blast
    then show ?thesis
      unfolding from_packet_valid_begin [OF h(1-7)] c
      by (auto simp: and_then_def split: sum.splits)
  qed
  have 2: "from_packet packet = Inl ValueError"
    if "packet \<noteq> []" "packet ! 0 = 0x15" "7 \<le> length packet"
     "uint (packet ! 5) \<notin> range AlertLevel_value \<or>
      uint (packet ! 6) \<notin> range AlertDescription_value"
  proof -
    have "AlertLevel_of (uint (packet ! 5)) = Inl ValueError \<or>
          AlertDescription_of (uint (packet ! 6)) = Inl ValueError"
      using that(4) by (auto simp: AlertLevel_of_def AlertDescription_of_def enum_lookup_unknown)
    then show ?thesis
      using P [of "take 2 (drop 1 packet)"] L [of "uint (packet ! 5)"]
      unfolding from_packet_alert_long [OF that(1-3)]
      by (auto simp: and_then_def)
  qed
  have 3: "\<exists>f. unpack_begin (take begin_length packet) = Inr f \<and>
           to_uint16 (server_version_int f) = Inr (Protocol_value (protocol r)) \<and>
           take 2 (drop (begin_length + nat (session_id_length f)) packet) =
             CipherSuite_value (cipher_suite r)"
    if r: "from_packet packet = Inr r" for r
  proof -
    have ne: "packet \<noteq> []" using r by (auto simp: from_packet_def)
    have n15: "packet ! 0 \<noteq> 0x15" using r ne from_packet_alert_never_returns by blast
    have h16: "packet ! 0 = 0x16" using r ne n15 from_packet_other_type [of packet] by auto
    obtain f where f: "unpack_begin (take begin_length packet) = Inr f"
      "legacy_record_version f \<in> {0x0301, 0x0302, 0x0303}" "handshake_type f = 0x02"
      "server_version_int f \<in> {0x0301, 0x0302, 0x0303}" "session_id_length f \<in> {0, 32}"
      using from_packet_Inr_checks [OF ne h16 r] by auto
    have "and_then (to_uint16 (server_version_int f)) (\<lambda>v.
               and_then (Protocol_of v) (\<lambda>p.
               and_then (CipherSuite_of (take 2 (drop (begin_length + nat (session_id_length f)) packet))) (\<lambda>c.
               Inr \<lparr>protocol = p, cipher_suite = c\<rparr>))) = Inr r"
      using r unfolding from_packet_valid_begin [OF ne h16 f] .
    then obtain v p c where vpc: "to_uint16 (server_version_int f) = Inr v" "Protocol_of v = Inr p"
      "CipherSuite_of (take 2 (drop (begin_length + nat (session_id_length f)) packet)) = Inr c"
      "r = \<lparr>protocol = p, cipher_suite = c\<rparr>"
      by (auto simp: and_then_Inr)
    have "to_uint16 (server_version_int f) = Inr (Protocol_value (protocol r)) \<and>
           take 2 (drop (begin_length + nat (session_id_length f)) packet) =
             CipherSuite_value (cipher_suite r)"
      using vpc Protocol_of_Inr [OF vpc(2)] CipherSuite_of_Inr [OF vpc(3)] by simp
    then show ?thesis using f(1) by blast
  qed
  have 4: "take 2 (drop 1 packet) = Protocol_value p \<and> uint (packet ! 5) = AlertLevel_value l \<and>
      uint (packet ! 6) = AlertDescription_value a"
    if e: "from_packet packet = Inl (ServerError p l a)" for p l a
  proof -
    have ne: "packet \<noteq> []" using e by (auto simp: from_packet_def)
    have h15: "packet ! 0 = 0x15"
    proof (rule ccontr)
      assume n: "packet ! 0 \<noteq> 0x15"
      show False
      proof (cases "packet ! 0 = 0x16")
        case False
        then show False using e ne n from_packet_other_type [of packet] by simp
      next
        case True
        show False
        proof (cases "unpack_begin (take begin_length packet)")
          case (Inl x)
          then show False using e ne True
            by (auto simp: from_packet_def and_then_def unpack_begin_def split: if_splits)
        next
          case (Inr f)
          show False
          proof (cases "legacy_record_version f \<in> {0x0301, 0x0302, 0x0303} \<and> handshake_type f = 0x02 \<and>
                 server_version_int f \<in> {0x0301, 0x0302, 0x0303} \<and> session_id_length f \<in> {0, 32}")
            case False
            then show False using from_packet_check_fails [OF ne True Inr] e by auto
          next
            case v: True
            then have "from_packet packet =
               and_then (to_uint16 (server_version_int f)) (\<lambda>v.
               and_then (Protocol_of v) (\<lambda>p.
               and_then (CipherSuite_of (take 2 (drop (begin_length + nat (session_id_length f)) packet))) (\<lambda>c.
               Inr \<lparr>protocol = p, cipher_suite = c\<rparr>)))"
              using from_packet_valid_begin [OF ne True Inr] by simp
            then show False
              using e handshake_branch_no_ServerError by metis
          qed
        qed
      qed
    qed
    have len: "7 \<le> length packet"
      using e from_packet_alert_short [OF ne h15] by (cases "7 \<le> length packet") auto
    have "and_then (Protocol_of (take 2 (drop 1 packet))) (\<lambda>p.
     and_then (AlertLevel_of (uint (packet ! 5))) (\<lambda>level.
     and_then (AlertDescription_of (uint (packet ! 6))) (\<lambda>alert.
     Inl (ServerError p level alert)))) = (Inl (ServerError p l a) :: error + ServerHello)"
      using e unfolding from_packet_alert_long [OF ne h15 len] .
    then have "Protocol_of (take 2 (drop 1 packet)) = Inr p \<and>
       AlertLevel_of (uint (packet ! 5)) = Inr l \<and> AlertDescription_of (uint (packet ! 6)) = Inr a"
      by (auto simp: and_then_Inl Protocol_of_def AlertLevel_of_def AlertDescription_of_def
          dest: enum_lookup_Inl)
    then show ?thesis
      by (auto dest: Protocol_of_Inr AlertLevel_of_Inr AlertDescription_of_Inr)
  qed
  show ?thesis using 1 2 3 4 by blast
qed

theorem from_packet_unknown_code_witness:
  "from_packet ([0x16, 0x03, 0x03, 0x00, 0x30, 0x02, 0x00, 0x00, 0x2c, 0x03, 0x03] @
                replicate 32 0 @ [0x00, 0xab, 0xcd]) = Inl ValueError \<and>
   from_packet [0x15, 0x03, 0x03, 0x00, 0x02, 0x09, 0x28] = Inl ValueError"
proof -
  let ?p = "[0x16, 0x03, 0x03, 0x00, 0x30, 0x02, 0x00, 0x00, 0x2c, 0x03, 0x03] @
                replicate 32 0 @ [0x00, 0xab, 0xcd :: byte]"
  let ?f = "\<lparr>record_type = 0x16, legacy_record_version = 0x0303, handshake_length = 0x30,
          handshake_type = 0x02, server_hello_length = [0x00, 0x00, 0x2c],
          server_version_int = 0x0303, server_random = replicate 32 0,
          session_id_length = 0\<rparr>"
  have u: "unpack_begin (take begin_length ?p) = Inr ?f"
    by (simp add: unpack_begin_def begin_length_def from_uint8_def nth_append)
  have c: "take 2 (drop (begin_length + nat (session_id_length ?f)) ?p) = [0xab, 0xcd]"
    by (simp add: begin_length_def)
  have n: "[0xab, 0xcd] \<notin> range CipherSuite_value"
  proof
    assume "[0xab, 0xcd] \<in> range CipherSuite_value"
    then obtain x where "CipherSuite_value x = [0xab, 0xcd]" by auto
    then show False by (cases x) simp_all
  qed
  have a: "from_packet ?p = Inl ValueError"
    using from_packet_unknown_code [of ?p ?f] u c n by simp
  have l: "(9 :: int) \<notin> range AlertLevel_value"
  proof
    assume "(9 :: int) \<in> range AlertLevel_value"
    then obtain x where "AlertLevel_value x = 9" by auto
    then show False by (cases x) simp_all
  qed
  have b: "from_packet [0x15, 0x03, 0x03, 0x00, 0x02, 0x09, 0x28] = Inl ValueError"
    using from_packet_unknown_code [of "[0x15, 0x03, 0x03, 0x00, 0x02, 0x09, 0x28]"] l by simp
  show ?thesis using a b by simp
qed

section \<open>Properties of the encoder\<close>

lemma to_uint16_ok: "0 \<le> n \<Longrightarrow> n < 65536 \<Longrightarrow> to_uint16 n = Inr [word_of_int (n div 256), word_of_int n]"
  by (simp add: to_uint16_def)

lemma to_uint16_overflow: "65536 \<le> n \<Longrightarrow> to_uint16 n = Inl OverflowError"
  by (simp add: to_uint16_def)

lemma to_uint16_Inr: "to_uint16 n = Inr bs \<Longrightarrow> 0 \<le> n \<and> n < 65536 \<and> length bs = 2"
  by (auto simp: to_uint16_def split: if_splits)

lemma to_uint16_Inl: "to_uint16 n = Inl e \<Longrightarrow> e = OverflowError"
  by (auto simp: to_uint16_def split: if_splits)

lemma to_uint24_Inr: "to_uint24 n = Inr bs \<Longrightarrow> 0 \<le> n \<and> n < 16777216 \<and> length bs = 3"
  by (auto simp: to_uint24_def split: if_splits)

lemma to_uint8_Inr: "to_uint8 n = Inr bs \<Longrightarrow> 0 \<le> n \<and> n < 256 \<and> length bs = 1"
  by (auto simp: to_uint8_def split: if_splits)

lemma uint_byte_of_int: "uint (word_of_int k :: byte) = k mod 256"
  by (simp add: uint_word_of_int take_bit_eq_mod)

lemma from_uint8_to_uint16: "to_uint16 n = Inr bs \<Longrightarrow> from_uint8 bs = n"
proof -
  assume a: "to_uint16 n = Inr bs"
  then have r: "0 \<le> n" "n < 65536" and bs: "bs = [word_of_int (n div 256), word_of_int n]"
    by (auto simp: to_uint16_def split: if_splits)
  have "(n div 256) mod 256 = n div 256" using r by simp
  then show ?thesis
    by (simp add: bs from_uint8_def uint_byte_of_int)
qed

lemma length_concat_Protocol_value: "length (concat (map Protocol_value ps)) = 2 * length ps"
proof (induction ps)
  case Nil
  show ?case by simp
next
  case (Cons p ps)
  obtain a b where "Protocol_value p = [a, b]" using Protocol_value_two by blast
  with Cons show ?case by simp
qed

lemma length_concat_CipherSuite_value: "length (concat (map CipherSuite_value cs)) = 2 * length cs"
  by (induction cs) (simp_all add: CipherSuite_value_length)

lemma length_constants:
  "length curves = 20" "length signature_algorithms = 32" "length psk_key_exchange_modes = 6"
  "length key_share = 42" "length client_random = 32" "length legacy_session_id = 32"
  by (simp_all add: curves_def signature_algorithms_def psk_key_exchange_modes_def key_share_def
      client_random_def legacy_session_id_def)

lemma max_key_foldl:
  "foldl (\<lambda>m y. if key m < key y then y else m) x rest \<in> set (x # rest) \<and>
   (\<forall>q \<in> set (x # rest). key q \<le> key (foldl (\<lambda>m y. if key m < key y then y else m) x rest))"
  for key :: "'a \<Rightarrow> 'k::linorder"
proof (induction rest arbitrary: x)
  case Nil
  show ?case by simp
next
  case (Cons y rest)
  show ?case
    using Cons [of "if key x < key y then y else x"]
    by (auto split: if_splits)
qed

lemma max_key_Inr:
  "max_key key xs = Inr m \<Longrightarrow> m \<in> set xs \<and> (\<forall>q \<in> set xs. key q \<le> key m)"
  for key :: "'a \<Rightarrow> 'k::linorder"
  using max_key_foldl [of key] by (cases xs) (auto simp: max_key_def)

lemma max_key_nonempty: "xs \<noteq> [] \<Longrightarrow> \<exists>m. max_key key xs = Inr m"
  by (cases xs) (auto simp: max_key_def)

lemma max_key_empty: "max_key key [] = Inl ValueError"
  by (simp add: max_key_def)

lemma supported_version_extension_absent:
  "TLS_1_3 \<notin> set (allowed_protocols ch) \<Longrightarrow> supported_version_extension ch = Inr []"
  by (simp add: supported_version_extension_def)

lemma supported_version_extension_present:
  assumes "TLS_1_3 \<in> set (allowed_protocols ch)" "length (allowed_protocols ch) \<le> 127"
  shows "supported_version_extension ch =
     Inr ([0x00, 0x2b] @
          [word_of_int ((2 * int (length (allowed_protocols ch)) + 1) div 256),
           word_of_int (2 * int (length (allowed_protocols ch)) + 1)] @
          [word_of_int (2 * int (length (allowed_protocols ch)))] @
          concat (map Protocol_value (allowed_protocols ch)))"
  using assms
  by (simp add: supported_version_extension_def Let_def length_concat_Protocol_value
      to_uint16_def to_uint8_def and_then_def)

lemma supported_version_extension_overflow:
  assumes "TLS_1_3 \<in> set (allowed_protocols ch)" "127 < length (allowed_protocols ch)"
  shows "supported_version_extension ch = Inl OverflowError"
  using assms
  by (simp add: supported_version_extension_def Let_def length_concat_Protocol_value
      to_uint16_def to_uint8_def and_then_def)

lemma extensions_overflow:
  "65530 < length (server_name ch) \<Longrightarrow> extensions ch sve = Inl OverflowError"
  by (simp add: extensions_def to_uint16_def and_then_def)

lemma extensions_not_ascii:
  "length (server_name ch) \<le> 65530 \<Longrightarrow> \<not> list_all (\<lambda>c. (of_char c :: nat) < 128) (server_name ch) \<Longrightarrow>
   extensions ch sve = Inl UnicodeEncodeError"
  by (simp add: extensions_def to_uint16_def encode_ascii_def and_then_def)

lemma extensions_ok:
  assumes "length (server_name ch) \<le> 65530" "list_all (\<lambda>c. (of_char c :: nat) < 128) (server_name ch)"
  shows "extensions ch sve =
    Inr ([0x00, 0x00] @
         [word_of_int ((int (length (server_name ch)) + 5) div 256),
          word_of_int (int (length (server_name ch)) + 5)] @
         ([word_of_int ((int (length (server_name ch)) + 3) div 256),
           word_of_int (int (length (server_name ch)) + 3)] @ [0x00] @
          [word_of_int (int (length (server_name ch)) div 256),
           word_of_int (int (length (server_name ch)))] @
          map of_char (server_name ch)) @
         ([0x00, 0x05, 0x00, 0x05, 0x01, 0x00, 0x00, 0x00, 0x00,
           0x00, 0x0b, 0x00, 0x04, 0x03, 0x00, 0x01, 0x02,
           0x00, 0x0a, 0x00, 0x16, 0x00, 0x14] @ curves @
          [0x00, 0x23, 0x00, 0x00, 0x00, 0x16, 0x00, 0x00, 0x00, 0x17, 0x00, 0x00,
           0x00, 0x0d, 0x00, 0x22, 0x00, 0x20] @ signature_algorithms @
          [0xff, 0x01, 0x00, 0x01, 0x00, 0x00, 0x12, 0x00, 0x00] @
          sve @ psk_key_exchange_modes @ key_share))"
  using assms
  by (simp add: extensions_def to_uint16_def encode_ascii_def and_then_def length_constants)


lemma length_extensions:
  assumes "extensions ch sve = Inr exts"
  shows "length exts = 159 + length (server_name ch) + length sve"
proof -
  have l: "length (server_name ch) \<le> 65530"
    using assms extensions_overflow [of ch sve] by (cases "length (server_name ch) \<le> 65530") auto
  have a: "list_all (\<lambda>c. (of_char c :: nat) < 128) (server_name ch)"
    using assms l extensions_not_ascii [of ch sve] by auto
  show ?thesis
    using assms unfolding extensions_ok [OF l a] by (auto simp: length_constants)
qed

lemma join_client_hello:
  assumes "length cipher_suites < 65536" "length exts < 65536"
  shows "join [Inr v, Inr client_random, Inr [0x20], Inr legacy_session_id,
               to_uint16 (int (length cipher_suites)), Inr cipher_suites, Inr [0x01], Inr [0x00],
               to_uint16 (int (length exts)), Inr exts] =
         Inr (v @ client_random @ [0x20] @ legacy_session_id @
              [word_of_int (int (length cipher_suites) div 256), word_of_int (int (length cipher_suites))] @
              cipher_suites @ [0x01, 0x00] @
              [word_of_int (int (length exts) div 256), word_of_int (int (length exts))] @ exts)"
  using assms by (simp add: to_uint16_def and_then_def)

lemma join_client_hello_overflow:
  assumes "65536 \<le> length cipher_suites \<or> 65536 \<le> length exts"
  shows "join [Inr v, Inr client_random, Inr [0x20], Inr legacy_session_id,
               to_uint16 (int (length cipher_suites)), Inr cipher_suites, Inr [0x01], Inr [0x00],
               to_uint16 (int (length exts)), Inr exts] = Inl OverflowError"
  using assms by (auto simp: to_uint16_def and_then_def)

lemma join_handshake:
  assumes "length client_hello < 16777216"
  shows "join [Inr [0x01], to_uint24 (int (length client_hello)), Inr client_hello] =
         Inr ([0x01] @ [word_of_int (int (length client_hello) div 65536),
                       word_of_int (int (length client_hello) div 256),
                       word_of_int (int (length client_hello))] @ client_hello)"
  using assms by (simp add: to_uint24_def and_then_def)

lemma join_record:
  assumes "length handshake < 65536"
  shows "join [Inr [0x16], Inr rv, to_uint16 (int (length handshake)), Inr handshake] =
         Inr ([0x16] @ rv @ [word_of_int (int (length handshake) div 256),
                            word_of_int (int (length handshake))] @ handshake)"
  using assms by (simp add: to_uint16_def and_then_def)

lemma join_record_overflow:
  assumes "65536 \<le> length handshake"
  shows "join [Inr [0x16], Inr rv, to_uint16 (int (length handshake)), Inr handshake] =
         Inl OverflowError"
  using assms by (simp add: to_uint16_def and_then_def)


lemma make_packet_ok:
  assumes sve: "supported_version_extension ch = Inr sve"
    and exts: "extensions ch sve = Inr exts"
    and m: "max_key Protocol_value (allowed_protocols ch) = Inr m"
    and fit: "236 + 2 * length (allowed_cipher_suites ch) + length (server_name ch) + length sve \<le> 65535"
  shows "\<exists>l2 l3 lcs lext. length l2 = 2 \<and> length l3 = 3 \<and> length lcs = 2 \<and> length lext = 2 \<and>
     make_packet ch =
       Inr ([0x16] @
            Protocol_value (if (if m = TLS_1_3 then TLS_1_2 else m) = SSLv3 then SSLv3 else TLS_1_0) @
            l2 @ [0x01] @ l3 @
            Protocol_value (if m = TLS_1_3 then TLS_1_2 else m) @ client_random @ [0x20] @
            legacy_session_id @ lcs @ concat (map CipherSuite_value (allowed_cipher_suites ch)) @
            [0x01, 0x00] @ lext @ exts)"
proof -
  let ?cs = "concat (map CipherSuite_value (allowed_cipher_suites ch))"
  let ?v = "Protocol_value (if m = TLS_1_3 then TLS_1_2 else m)"
  let ?rv = "Protocol_value (if (if m = TLS_1_3 then TLS_1_2 else m) = SSLv3 then SSLv3 else TLS_1_0)"
  let ?lcs = "[word_of_int (int (length ?cs) div 256), word_of_int (int (length ?cs))] :: bytes"
  let ?lext = "[word_of_int (int (length exts) div 256), word_of_int (int (length exts))] :: bytes"
  let ?client_hello = "?v @ client_random @ [0x20] @ legacy_session_id @ ?lcs @ ?cs @ [0x01, 0x00] @
              ?lext @ exts"
  let ?l3 = "[word_of_int (int (length ?client_hello) div 65536),
             word_of_int (int (length ?client_hello) div 256),
             word_of_int (int (length ?client_hello))] :: bytes"
  let ?handshake = "[0x01] @ ?l3 @ ?client_hello"
  let ?l2 = "[word_of_int (int (length ?handshake) div 256), word_of_int (int (length ?handshake))] :: bytes"
  have lcs: "length ?cs = 2 * length (allowed_cipher_suites ch)"
    by (rule length_concat_CipherSuite_value)
  have lex: "length exts = 159 + length (server_name ch) + length sve"
    by (rule length_extensions [OF exts])
  have lv: "length ?v = 2"
    using Protocol_value_two [of "if m = TLS_1_3 then TLS_1_2 else m"] by auto
  have 1: "join [Inr ?v, Inr client_random, Inr [0x20], Inr legacy_session_id,
               to_uint16 (int (length ?cs)), Inr ?cs, Inr [0x01], Inr [0x00],
               to_uint16 (int (length exts)), Inr exts] = Inr ?client_hello"
    using fit lcs lex by (intro join_client_hello) simp_all
  have lch: "length ?client_hello = 73 + 2 * length (allowed_cipher_suites ch) + length exts"
    using lcs lv by (simp add: length_constants)
  have 2: "join [Inr [0x01], to_uint24 (int (length ?client_hello)), Inr ?client_hello] = Inr ?handshake"
    using fit lex lch by (intro join_handshake) simp
  have lh: "length ?handshake = 77 + 2 * length (allowed_cipher_suites ch) + length exts"
    using lch by simp
  have 3: "join [Inr [0x16], Inr ?rv, to_uint16 (int (length ?handshake)), Inr ?handshake] =
           Inr ([0x16] @ ?rv @ ?l2 @ ?handshake)"
    using fit lex lh by (intro join_record) simp
  have mp: "make_packet ch = Inr ([0x16] @ ?rv @ ?l2 @ ?handshake)"
    unfolding make_packet_def Let_def sve exts m and_then_def sum.case 1 2 3 ..
  have two: "length [a, b] = 2" for a b :: byte by simp
  have three: "length [a, b, c] = 3" for a b c :: byte by simp
  show ?thesis
    by (intro exI [of _ ?l2] exI [of _ ?l3] exI [of _ ?lcs] exI [of _ ?lext] conjI)
       (rule two three mp)+
qed

lemma and_then_Inl_left: "and_then (Inl e) f = Inl e"
  by (simp add: and_then_def)

lemma make_packet_too_long:
  assumes sve: "supported_version_extension ch = Inr sve"
    and exts: "extensions ch sve = Inr exts"
    and m: "max_key Protocol_value (allowed_protocols ch) = Inr m"
    and big: "65535 < 236 + 2 * length (allowed_cipher_suites ch) + length (server_name ch) + length sve"
  shows "make_packet ch = Inl OverflowError"
proof -
  let ?cs = "concat (map CipherSuite_value (allowed_cipher_suites ch))"
  let ?v = "Protocol_value (if m = TLS_1_3 then TLS_1_2 else m)"
  let ?rv = "Protocol_value (if (if m = TLS_1_3 then TLS_1_2 else m) = SSLv3 then SSLv3 else TLS_1_0)"
  let ?lcs = "[word_of_int (int (length ?cs) div 256), word_of_int (int (length ?cs))] :: bytes"
  let ?lext = "[word_of_int (int (length exts) div 256), word_of_int (int (length exts))] :: bytes"
  let ?client_hello = "?v @ client_random @ [0x20] @ legacy_session_id @ ?lcs @ ?cs @ [0x01, 0x00] @
              ?lext @ exts"
  let ?l3 = "[word_of_int (int (length ?client_hello) div 65536),
             word_of_int (int (length ?client_hello) div 256),
             word_of_int (int (length ?client_hello))] :: bytes"
  let ?handshake = "[0x01] @ ?l3 @ ?client_hello"
  have lcs: "length ?cs = 2 * length (allowed_cipher_suites ch)"
    by (rule length_concat_CipherSuite_value)
  have lex: "length exts = 159 + length (server_name ch) + length sve"
    by (rule length_extensions [OF exts])
  have lv: "length ?v = 2"
    using Protocol_value_two [of "if m = TLS_1_3 then TLS_1_2 else m"] by auto
  show ?thesis
  proof (cases "65536 \<le> length ?cs \<or> 65536 \<le> length exts")
    case True
    have 1: "join [Inr ?v, Inr client_random, Inr [0x20], Inr legacy_session_id,
               to_uint16 (int (length ?cs)), Inr ?cs, Inr [0x01], Inr [0x00],
               to_uint16 (int (length exts)), Inr exts] = Inl OverflowError"
      using True by (rule join_client_hello_overflow)
    show ?thesis
      unfolding make_packet_def Let_def sve exts m and_then_def sum.case 1 ..
  next
    case False
    have 1: "join [Inr ?v, Inr client_random, Inr [0x20], Inr legacy_session_id,
               to_uint16 (int (length ?cs)), Inr ?cs, Inr [0x01], Inr [0x00],
               to_uint16 (int (length exts)), Inr exts] = Inr ?client_hello"
      using False by (intro join_client_hello) simp_all
    have lch: "length ?client_hello = 73 + 2 * length (allowed_cipher_suites ch) + length exts"
      using lcs lv by (simp add: length_constants)
    have 2: "join [Inr [0x01], to_uint24 (int (length ?client_hello)), Inr ?client_hello] = Inr ?handshake"
      using False lcs lch by (intro join_handshake) simp
    have lh: "length ?handshake = 77 + 2 * length (allowed_cipher_suites ch) + length exts"
      using lch by simp
    have 3: "join [Inr [0x16], Inr ?rv, to_uint16 (int (length ?handshake)), Inr ?handshake] =
           Inl OverflowError"
      using big lex lh by (intro join_record_overflow) simp
    show ?thesis
      unfolding make_packet_def Let_def sve exts m and_then_def sum.case 1 2 3 ..
  qed
qed

lemma make_packet_Inr:
  assumes "make_packet ch = Inr packet"
  shows "\<exists>sve exts m l2 l3 lcs lext.
     supported_version_extension ch = Inr sve \<and> extensions ch sve = Inr exts \<and>
     max_key Protocol_value (allowed_protocols ch) = Inr m \<and>
     length l2 = 2 \<and> length l3 = 3 \<and> length lcs = 2 \<and> length lext = 2 \<and>
     packet = [0x16] @
            Protocol_value (if (if m = TLS_1_3 then TLS_1_2 else m) = SSLv3 then SSLv3 else TLS_1_0) @
            l2 @ [0x01] @ l3 @
            Protocol_value (if m = TLS_1_3 then TLS_1_2 else m) @ client_random @ [0x20] @
            legacy_session_id @ lcs @ concat (map CipherSuite_value (allowed_cipher_suites ch)) @
            [0x01, 0x00] @ lext @ exts"
proof -
  obtain sve where sve: "supported_version_extension ch = Inr sve"
    using assms by (cases "supported_version_extension ch") (auto simp: make_packet_def Let_def and_then_def)
  obtain exts where exts: "extensions ch sve = Inr exts"
    using assms sve by (cases "extensions ch sve") (auto simp: make_packet_def Let_def and_then_def)
  obtain m where m: "max_key Protocol_value (allowed_protocols ch) = Inr m"
    using assms sve exts
    by (cases "max_key Protocol_value (allowed_protocols ch)") (auto simp: make_packet_def Let_def and_then_def)
  have fit: "236 + 2 * length (allowed_cipher_suites ch) + length (server_name ch) + length sve \<le> 65535"
    using make_packet_too_long [OF sve exts m] assms by (cases "236 + 2 * length (allowed_cipher_suites ch) + length (server_name ch) + length sve \<le> 65535") auto
  show ?thesis
    using make_packet_ok [OF sve exts m fit] assms sve exts m by auto
qed

lemma lower_of_TLS_1_2:
  "(if m = TLS_1_3 then TLS_1_2 else m) =
   (if Protocol_value TLS_1_2 \<le> Protocol_value m then TLS_1_2 else m)"
  by (cases m) simp_all

lemma length_supported_version_extension:
  assumes "TLS_1_3 \<in> set (allowed_protocols ch)" "supported_version_extension ch = Inr sve"
  shows "length (allowed_protocols ch) \<le> 127 \<and> length sve = 5 + 2 * length (allowed_protocols ch)"
proof -
  have l: "length (allowed_protocols ch) \<le> 127"
    using assms supported_version_extension_overflow [of ch]
    by (cases "length (allowed_protocols ch) \<le> 127") auto
  show ?thesis
    using assms(2) l unfolding supported_version_extension_present [OF assms(1) l]
    by (auto simp: length_concat_Protocol_value)
qed

lemma make_packet_fits:
  assumes ne: "allowed_protocols ch \<noteq> []"
    and ascii: "list_all (\<lambda>c. (of_char c :: nat) < 128) (server_name ch)"
  shows "(record_fits ch \<longrightarrow> (\<exists>packet. make_packet ch = Inr packet)) \<and>
         (\<not> record_fits ch \<longrightarrow> make_packet ch = Inl OverflowError)"
proof (cases "TLS_1_3 \<in> set (allowed_protocols ch) \<and> 127 < length (allowed_protocols ch)")
  case True
  then have "supported_version_extension ch = Inl OverflowError"
    by (simp add: supported_version_extension_overflow)
  then have "make_packet ch = Inl OverflowError"
    by (simp add: make_packet_def Let_def and_then_def)
  moreover have "\<not> record_fits ch" using True by (simp add: record_fits_def)
  ultimately show ?thesis by simp
next
  case False
  obtain sve where sve: "supported_version_extension ch = Inr sve"
    and lsve: "length sve = (if TLS_1_3 \<in> set (allowed_protocols ch)
                             then 5 + 2 * length (allowed_protocols ch) else 0)"
  proof (cases "TLS_1_3 \<in> set (allowed_protocols ch)")
    case t: True
    then have l: "length (allowed_protocols ch) \<le> 127" using False by simp
    show ?thesis
      using that supported_version_extension_present [OF t l]
        length_supported_version_extension [OF t] t by auto
  next
    case f: False
    then show ?thesis using that supported_version_extension_absent [of ch] by simp
  qed
  obtain m where m: "max_key Protocol_value (allowed_protocols ch) = Inr m"
    using max_key_nonempty [OF ne] by blast
  show ?thesis
  proof (cases "length (server_name ch) \<le> 65530")
    case l: True
    obtain exts where exts: "extensions ch sve = Inr exts"
      using extensions_ok [OF l ascii] by blast
    show ?thesis
    proof (cases "record_fits ch")
      case True
      then have "236 + 2 * length (allowed_cipher_suites ch) + length (server_name ch) + length sve \<le> 65535"
        by (simp add: record_fits_def lsve)
      from make_packet_ok [OF sve exts m this] True show ?thesis by blast
    next
      case nf: False
      then have "65535 < 236 + 2 * length (allowed_cipher_suites ch) + length (server_name ch) + length sve"
        using False by (auto simp: record_fits_def lsve split: if_splits)
      from make_packet_too_long [OF sve exts m this] nf show ?thesis by simp
    qed
  next
    case l: False
    then have "extensions ch sve = Inl OverflowError"
      by (simp add: extensions_overflow)
    then have "make_packet ch = Inl OverflowError"
      using sve by (simp add: make_packet_def Let_def and_then_def)
    moreover have "\<not> record_fits ch" using l by (simp add: record_fits_def)
    ultimately show ?thesis by simp
  qed
qed

lemma from_uint8_length_bytes:
  "0 \<le> n \<Longrightarrow> n < 65536 \<Longrightarrow> from_uint8 [word_of_int (n div 256), word_of_int n] = n"
  using from_uint8_to_uint16 [of n "[word_of_int (n div 256), word_of_int n]"]
  by (simp add: to_uint16_def)

lemma parse_types_step:
  assumes "from_uint8 [l1, l2] = int (length payload)"
  shows "map_option (map fst) (parse_extensions (t1 # t2 # l1 # l2 # payload @ rest)) =
         map_option ((#) (from_uint8 [t1, t2])) (map_option (map fst) (parse_extensions rest))"
  using assms by (simp add: Let_def option.map_comp comp_def)

lemma types_key_share: "map_option (map fst) (parse_extensions key_share) = Some [51]"
  by (simp add: key_share_def from_uint8_def)

lemma types_psk:
  "map_option (map fst) (parse_extensions (psk_key_exchange_modes @ key_share)) = Some [45, 51]"
  by (simp add: psk_key_exchange_modes_def key_share_def from_uint8_def)

lemma types_supported_versions:
  assumes "map_option (map fst) (parse_extensions rest) = Some ts" "length ps \<le> 127"
  shows "map_option (map fst) (parse_extensions
          (([0x00, 0x2b] @
            [word_of_int ((2 * int (length ps) + 1) div 256), word_of_int (2 * int (length ps) + 1)] @
            [word_of_int (2 * int (length ps))] @ concat (map Protocol_value ps)) @ rest)) =
         Some (43 # ts)"
proof -
  let ?payload = "[word_of_int (2 * int (length ps)) :: byte] @ concat (map Protocol_value ps)"
  have l: "from_uint8 [word_of_int ((2 * int (length ps) + 1) div 256) :: byte,
                       word_of_int (2 * int (length ps) + 1)] = int (length ?payload)"
    using assms(2) by (subst from_uint8_length_bytes) (simp_all add: length_concat_Protocol_value)
  have "map_option (map fst) (parse_extensions
          (0x00 # 0x2b # word_of_int ((2 * int (length ps) + 1) div 256) #
            word_of_int (2 * int (length ps) + 1) # ?payload @ rest)) =
        map_option ((#) (from_uint8 [0x00, 0x2b])) (map_option (map fst) (parse_extensions rest))"
    by (rule parse_types_step [OF l])
  then show ?thesis
    by (simp add: assms(1) from_uint8_def)
qed

lemma types_server_name:
  assumes "map_option (map fst) (parse_extensions rest) = Some ts" "length name \<le> 65530"
  shows "map_option (map fst) (parse_extensions
          ([0x00, 0x00] @
           [word_of_int ((int (length name) + 5) div 256), word_of_int (int (length name) + 5)] @
           ([word_of_int ((int (length name) + 3) div 256), word_of_int (int (length name) + 3)] @
            [0x00] @
            [word_of_int (int (length name) div 256), word_of_int (int (length name))] @
            map of_char name) @ rest)) =
         Some (0 # ts)"
proof -
  let ?payload = "[word_of_int ((int (length name) + 3) div 256), word_of_int (int (length name) + 3)] @
            [0x00] @
            [word_of_int (int (length name) div 256), word_of_int (int (length name))] @
            (map of_char name :: bytes)"
  have l: "from_uint8 [word_of_int ((int (length name) + 5) div 256) :: byte,
                       word_of_int (int (length name) + 5)] = int (length ?payload)"
    using assms(2) by (subst from_uint8_length_bytes) simp_all
  have "map_option (map fst) (parse_extensions
          (0x00 # 0x00 # word_of_int ((int (length name) + 5) div 256) #
            word_of_int (int (length name) + 5) # ?payload @ rest)) =
        map_option ((#) (from_uint8 [0x00, 0x00])) (map_option (map fst) (parse_extensions rest))"
    by (rule parse_types_step [OF l])
  then show ?thesis
    by (simp add: assms(1) from_uint8_def)
qed

lemma types_fixed:
  assumes "map_option (map fst) (parse_extensions rest) = Some ts"
  shows "map_option (map fst) (parse_extensions
          ([0x00, 0x05, 0x00, 0x05, 0x01, 0x00, 0x00, 0x00, 0x00,
           0x00, 0x0b, 0x00, 0x04, 0x03, 0x00, 0x01, 0x02,
           0x00, 0x0a, 0x00, 0x16, 0x00, 0x14] @ curves @
          [0x00, 0x23, 0x00, 0x00, 0x00, 0x16, 0x00, 0x00, 0x00, 0x17, 0x00, 0x00,
           0x00, 0x0d, 0x00, 0x22, 0x00, 0x20] @ signature_algorithms @
          [0xff, 0x01, 0x00, 0x01, 0x00, 0x00, 0x12, 0x00, 0x00] @ rest)) =
         Some ([5, 11, 10, 35, 22, 23, 13, 65281, 18] @ ts)"
  using assms
  by (simp add: curves_def signature_algorithms_def from_uint8_def Let_def option.map_comp comp_def)


lemma extension_types:
  assumes "make_packet ch = Inr packet"
  shows "map_option (map fst) (parse_extensions (drop (extensions_offset ch) packet)) =
         Some ([0, 5, 11, 10, 35, 22, 23, 13, 65281, 18] @
               (if TLS_1_3 \<in> set (allowed_protocols ch) then [43] else []) @ [45, 51])"
proof -
  obtain sve exts m l2 l3 lcs lext where
    sve: "supported_version_extension ch = Inr sve" and
    exts: "extensions ch sve = Inr exts" and
    l: "length l2 = 2" "length l3 = 3" "length lcs = 2" "length lext = 2" and
    p: "packet = [0x16] @
            Protocol_value (if (if m = TLS_1_3 then TLS_1_2 else m) = SSLv3 then SSLv3 else TLS_1_0) @
            l2 @ [0x01] @ l3 @
            Protocol_value (if m = TLS_1_3 then TLS_1_2 else m) @ client_random @ [0x20] @
            legacy_session_id @ lcs @ concat (map CipherSuite_value (allowed_cipher_suites ch)) @
            [0x01, 0x00] @ lext @ exts"
    using make_packet_Inr [OF assms] by blast
  let ?v = "if m = TLS_1_3 then TLS_1_2 else m"
  let ?rv = "if ?v = SSLv3 then SSLv3 else TLS_1_0"
  have lv: "length (Protocol_value ?v) = 2" "length (Protocol_value ?rv) = 2"
    using Protocol_value_two [of ?v] Protocol_value_two [of ?rv] by auto
  obtain a b where v: "Protocol_value ?v = [a, b]" using Protocol_value_two by blast
  obtain c d where rv: "Protocol_value ?rv = [c, d]" using Protocol_value_two by blast
  define pre where "pre = [0x16] @ [c, d] @ l2 @ [0x01] @ l3 @ [a, b] @ client_random @ [0x20] @
            legacy_session_id @ lcs @ concat (map CipherSuite_value (allowed_cipher_suites ch)) @
            [0x01, 0x00] @ lext"
  have pp: "packet = pre @ exts"
    unfolding p pre_def v rv by simp
  have lpre: "length pre = extensions_offset ch"
    unfolding pre_def using l
    by (simp add: extensions_offset_def length_constants length_concat_CipherSuite_value)
  have d: "drop (extensions_offset ch) packet = exts"
    using pp lpre by simp
  have ln: "length (server_name ch) \<le> 65530"
    using exts extensions_overflow [of ch sve] by (cases "length (server_name ch) \<le> 65530") auto
  have ascii: "list_all (\<lambda>c. (of_char c :: nat) < 128) (server_name ch)"
    using exts ln extensions_not_ascii [of ch sve] by auto
  have t11: "map_option (map fst) (parse_extensions (sve @ psk_key_exchange_modes @ key_share)) =
        Some ((if TLS_1_3 \<in> set (allowed_protocols ch) then [43] else []) @ [45, 51])"
  proof (cases "TLS_1_3 \<in> set (allowed_protocols ch)")
    case True
    have lp: "length (allowed_protocols ch) \<le> 127"
      using length_supported_version_extension [OF True sve] by simp
    have "sve = [0x00, 0x2b] @
          [word_of_int ((2 * int (length (allowed_protocols ch)) + 1) div 256),
           word_of_int (2 * int (length (allowed_protocols ch)) + 1)] @
          [word_of_int (2 * int (length (allowed_protocols ch)))] @
          concat (map Protocol_value (allowed_protocols ch))"
      using sve unfolding supported_version_extension_present [OF True lp] by simp
    then show ?thesis
      using types_supported_versions [OF types_psk lp] True by simp
  next
    case False
    then have "sve = []" using sve supported_version_extension_absent [of ch] by simp
    then show ?thesis using False types_psk by simp
  qed
  have "map_option (map fst) (parse_extensions exts) =
        Some (0 # [5, 11, 10, 35, 22, 23, 13, 65281, 18] @
             (if TLS_1_3 \<in> set (allowed_protocols ch) then [43] else []) @ [45, 51])"
    using exts unfolding extensions_ok [OF ln ascii]
    using types_server_name [OF types_fixed [OF t11] ln] by simp
  then show ?thesis unfolding d by simp
qed

text \<open>
  Claim C1. For a request with non-empty allowed\_protocols, every packet that
  \<^verbatim>\<open>make_packet\<close> returns encodes these versions: some requested protocol \<open>m\<close> has the
  greatest wire code among the requested ones, the legacy client-hello version (bytes 9
  and 10 of the record) is the code of the lower of TLS 1.2 and \<open>m\<close>, and the
  record-layer version (bytes 1 and 2) is the code of SSLv3 when that legacy version is
  SSLv3 and of TLS 1.0 otherwise. And \<^verbatim>\<open>make_packet\<close> does return a packet whenever
  the server name is ASCII-encodable and the sizes fit the length fields.
\<close>

theorem make_packet_legacy_versions:
  assumes "allowed_protocols ch \<noteq> []"
  shows "(\<forall>packet. make_packet ch = Inr packet \<longrightarrow>
          (\<exists>m \<in> set (allowed_protocols ch).
             (\<forall>q \<in> set (allowed_protocols ch). Protocol_value q \<le> Protocol_value m) \<and>
             take 2 (drop 9 packet) =
               Protocol_value (if Protocol_value TLS_1_2 \<le> Protocol_value m then TLS_1_2 else m) \<and>
             take 2 (drop 1 packet) =
               Protocol_value
                 (if (if Protocol_value TLS_1_2 \<le> Protocol_value m then TLS_1_2 else m) = SSLv3
                  then SSLv3 else TLS_1_0))) \<and>
         ((\<exists>b. encode_ascii (server_name ch) = Inr b) \<and> record_fits ch \<longrightarrow>
          (\<exists>packet. make_packet ch = Inr packet))"
proof -
  have versions: "\<exists>m \<in> set (allowed_protocols ch).
             (\<forall>q \<in> set (allowed_protocols ch). Protocol_value q \<le> Protocol_value m) \<and>
             take 2 (drop 9 packet) =
               Protocol_value (if Protocol_value TLS_1_2 \<le> Protocol_value m then TLS_1_2 else m) \<and>
             take 2 (drop 1 packet) =
               Protocol_value
                 (if (if Protocol_value TLS_1_2 \<le> Protocol_value m then TLS_1_2 else m) = SSLv3
                  then SSLv3 else TLS_1_0)"
    if mp: "make_packet ch = Inr packet" for packet
  proof -
    obtain sve exts m l2 l3 lcs lext where
      m: "max_key Protocol_value (allowed_protocols ch) = Inr m" and
      l: "length l2 = 2" "length l3 = 3" and
      p: "packet = [0x16] @
              Protocol_value (if (if m = TLS_1_3 then TLS_1_2 else m) = SSLv3 then SSLv3 else TLS_1_0) @
              l2 @ [0x01] @ l3 @
              Protocol_value (if m = TLS_1_3 then TLS_1_2 else m) @ client_random @ [0x20] @
              legacy_session_id @ lcs @ concat (map CipherSuite_value (allowed_cipher_suites ch)) @
              [0x01, 0x00] @ lext @ exts"
      using make_packet_Inr [OF mp] by blast
    let ?v = "if m = TLS_1_3 then TLS_1_2 else m"
    let ?rv = "if ?v = SSLv3 then SSLv3 else TLS_1_0"
    obtain a b where v: "Protocol_value ?v = [a, b]" using Protocol_value_two by blast
    obtain c d where rv: "Protocol_value ?rv = [c, d]" using Protocol_value_two by blast
    obtain x y where l2: "l2 = [x, y]"
      using l(1) by (auto simp: length_Suc_conv numeral_2_eq_2)
    obtain s1 s2 s3 where l3: "l3 = [s1, s2, s3]"
      using l(2) by (auto simp: length_Suc_conv numeral_3_eq_3)
    have 1: "take 2 (drop 1 packet) = Protocol_value ?rv"
      unfolding p rv by simp
    have 9: "take 2 (drop 9 packet) = Protocol_value ?v"
      unfolding p rv v l2 l3 by simp
    have "m \<in> set (allowed_protocols ch) \<and>
          (\<forall>q \<in> set (allowed_protocols ch). Protocol_value q \<le> Protocol_value m)"
      using max_key_Inr [OF m] .
    then show ?thesis
      using 1 9 unfolding lower_of_TLS_1_2 by blast
  qed
  have produced: "\<exists>packet. make_packet ch = Inr packet"
    if "\<exists>b. encode_ascii (server_name ch) = Inr b" "record_fits ch"
  proof -
    have "list_all (\<lambda>c. (of_char c :: nat) < 128) (server_name ch)"
      using that(1) by (auto simp: encode_ascii_def split: if_splits)
    then show ?thesis using make_packet_fits [OF assms] that(2) by blast
  qed
  show ?thesis using versions produced by blast
qed

theorem make_packet_legacy_versions_witness:
  "(\<exists>packet. make_packet \<lparr>server_name = ''a'', allowed_protocols = [TLS_1_0, TLS_1_3, SSLv3],
                allowed_cipher_suites = [TLS_AES_128_GCM_SHA256]\<rparr> = Inr packet \<and>
      take 2 (drop 9 packet) = [0x03, 0x03] \<and> take 2 (drop 1 packet) = [0x03, 0x01]) \<and>
   (\<exists>packet. make_packet \<lparr>server_name = ''a'', allowed_protocols = [SSLv3],
                allowed_cipher_suites = [TLS_RSA_WITH_AES_128_CBC_SHA]\<rparr> = Inr packet \<and>
      take 2 (drop 9 packet) = [0x03, 0x00] \<and> take 2 (drop 1 packet) = [0x03, 0x00])"
proof -
  let ?ch = "\<lparr>server_name = ''a'', allowed_protocols = [TLS_1_0, TLS_1_3, SSLv3],
                allowed_cipher_suites = [TLS_AES_128_GCM_SHA256]\<rparr>"
  let ?ch3 = "\<lparr>server_name = ''a'', allowed_protocols = [SSLv3],
                allowed_cipher_suites = [TLS_RSA_WITH_AES_128_CBC_SHA]\<rparr>"
  have ne: "allowed_protocols ?ch \<noteq> []" "allowed_protocols ?ch3 \<noteq> []" by simp_all
  have ok: "(\<exists>b. encode_ascii (server_name ?ch) = Inr b) \<and> record_fits ?ch"
    "(\<exists>b. encode_ascii (server_name ?ch3) = Inr b) \<and> record_fits ?ch3"
    by (simp_all add: encode_ascii_def record_fits_def)
  obtain packet where p: "make_packet ?ch = Inr packet"
    using make_packet_legacy_versions [OF ne(1)] ok(1) by blast
  obtain m where m: "m \<in> set (allowed_protocols ?ch)"
      "\<forall>q \<in> set (allowed_protocols ?ch). Protocol_value q \<le> Protocol_value m"
      "take 2 (drop 9 packet) =
             Protocol_value (if Protocol_value TLS_1_2 \<le> Protocol_value m then TLS_1_2 else m)"
      "take 2 (drop 1 packet) =
             Protocol_value
               (if (if Protocol_value TLS_1_2 \<le> Protocol_value m then TLS_1_2 else m) = SSLv3
                then SSLv3 else TLS_1_0)"
    using make_packet_legacy_versions [OF ne(1)] p by blast
  have "m = TLS_1_3" using m(1,2) by auto
  then have a: "take 2 (drop 9 packet) = [0x03, 0x03] \<and> take 2 (drop 1 packet) = [0x03, 0x01]"
    using m(3,4) by simp
  obtain packet3 where p3: "make_packet ?ch3 = Inr packet3"
    using make_packet_legacy_versions [OF ne(2)] ok(2) by blast
  obtain m3 where m3: "m3 \<in> set (allowed_protocols ?ch3)"
      "take 2 (drop 9 packet3) =
             Protocol_value (if Protocol_value TLS_1_2 \<le> Protocol_value m3 then TLS_1_2 else m3)"
      "take 2 (drop 1 packet3) =
             Protocol_value
               (if (if Protocol_value TLS_1_2 \<le> Protocol_value m3 then TLS_1_2 else m3) = SSLv3
                then SSLv3 else TLS_1_0)"
    using make_packet_legacy_versions [OF ne(2)] p3 by blast
  have "m3 = SSLv3" using m3(1) by simp
  then have b: "take 2 (drop 9 packet3) = [0x03, 0x00] \<and> take 2 (drop 1 packet3) = [0x03, 0x00]"
    using m3(2,3) by simp
  show ?thesis using p a p3 b by blast
qed

text \<open>
  Claim C2, as stated, fails: for a request that offers only TLS 1.2 the extensions block
  still carries psk\_key\_exchange\_modes (45) and key\_share (51); only
  supported\_versions (43) is left out.
\<close>

theorem make_packet_extensions_counterexample:
  "TLS_1_3 \<notin> set (allowed_protocols \<lparr>server_name = ''example.com'', allowed_protocols = [TLS_1_2],
       allowed_cipher_suites = [TLS_RSA_WITH_AES_128_GCM_SHA256]\<rparr>) \<and>
   (\<exists>packet. make_packet \<lparr>server_name = ''example.com'', allowed_protocols = [TLS_1_2],
       allowed_cipher_suites = [TLS_RSA_WITH_AES_128_GCM_SHA256]\<rparr> = Inr packet \<and>
     map_option (map fst) (parse_extensions (drop
       (extensions_offset \<lparr>server_name = ''example.com'', allowed_protocols = [TLS_1_2],
          allowed_cipher_suites = [TLS_RSA_WITH_AES_128_GCM_SHA256]\<rparr>) packet)) =
     Some [0, 5, 11, 10, 35, 22, 23, 13, 65281, 18, 45, 51])"
proof -
  let ?ch = "\<lparr>server_name = ''example.com'', allowed_protocols = [TLS_1_2],
       allowed_cipher_suites = [TLS_RSA_WITH_AES_128_GCM_SHA256]\<rparr>"
  have "record_fits ?ch" by (simp add: record_fits_def)
  then obtain packet where p: "make_packet ?ch = Inr packet"
    using make_packet_fits [of ?ch] by auto
  show ?thesis
    using p extension_types [OF p] by auto
qed

text \<open>
  Claim C2, amended. The extensions block of the packet carries, in this order,
  server\_name (0), status\_request (5), ec\_point\_formats (11), supported\_groups (10),
  session\_ticket (35), encrypt\_then\_mac (22), extended\_master\_secret (23),
  signature\_algorithms (13), renegotiation\_info (65281) and
  signed\_certificate\_timestamp (18); then supported\_versions (43) exactly when TLS 1.3
  is among allowed\_protocols; then, in every case, psk\_key\_exchange\_modes (45) and
  key\_share (51).
\<close>

theorem make_packet_extensions_order:
  assumes "make_packet ch = Inr packet"
  shows "map_option (map fst) (parse_extensions (drop (extensions_offset ch) packet)) =
         Some ([0, 5, 11, 10, 35, 22, 23, 13, 65281, 18] @
               (if TLS_1_3 \<in> set (allowed_protocols ch) then [43] else []) @ [45, 51])"
  using assms by (rule extension_types)

theorem make_packet_extensions_order_witness:
  "\<exists>packet. make_packet \<lparr>server_name = ''example.com'', allowed_protocols = [TLS_1_2, TLS_1_3],
       allowed_cipher_suites = [TLS_AES_128_GCM_SHA256]\<rparr> = Inr packet \<and>
     map_option (map fst) (parse_extensions (drop
       (extensions_offset \<lparr>server_name = ''example.com'', allowed_protocols = [TLS_1_2, TLS_1_3],
          allowed_cipher_suites = [TLS_AES_128_GCM_SHA256]\<rparr>) packet)) =
     Some [0, 5, 11, 10, 35, 22, 23, 13, 65281, 18, 43, 45, 51]"
proof -
  let ?ch = "\<lparr>server_name = ''example.com'', allowed_protocols = [TLS_1_2, TLS_1_3],
       allowed_cipher_suites = [TLS_AES_128_GCM_SHA256]\<rparr>"
  have "record_fits ?ch" by (simp add: record_fits_def)
  then obtain packet where p: "make_packet ?ch = Inr packet"
    using make_packet_fits [of ?ch] by auto
  show ?thesis
    using p make_packet_extensions_order [OF p] by auto
qed

text \<open>
  Claim C8, as stated, fails: a request with one protocol, one cipher suite and an ASCII
  server name of 65531 characters makes \<^verbatim>\<open>make_packet\<close> raise \<open>OverflowError\<close>,
  because the length of the server\_name extension no longer fits in two bytes.
\<close>

theorem make_packet_total_counterexample:
  "allowed_protocols \<lparr>server_name = replicate 65531 CHR ''a'', allowed_protocols = [TLS_1_2],
       allowed_cipher_suites = [TLS_RSA_WITH_AES_128_GCM_SHA256]\<rparr> \<noteq> [] \<and>
   allowed_cipher_suites \<lparr>server_name = replicate 65531 CHR ''a'', allowed_protocols = [TLS_1_2],
       allowed_cipher_suites = [TLS_RSA_WITH_AES_128_GCM_SHA256]\<rparr> \<noteq> [] \<and>
   encode_ascii (replicate 65531 CHR ''a'') = Inr (replicate 65531 0x61) \<and>
   make_packet \<lparr>server_name = replicate 65531 CHR ''a'', allowed_protocols = [TLS_1_2],
       allowed_cipher_suites = [TLS_RSA_WITH_AES_128_GCM_SHA256]\<rparr> = Inl OverflowError"
proof -
  let ?ch = "\<lparr>server_name = replicate 65531 CHR ''a'', allowed_protocols = [TLS_1_2],
       allowed_cipher_suites = [TLS_RSA_WITH_AES_128_GCM_SHA256]\<rparr>"
  have s: "supported_version_extension ?ch = Inr []"
    by (simp add: supported_version_extension_def)
  have e: "extensions ?ch [] = Inl OverflowError"
    by (rule extensions_overflow) simp
  have "make_packet ?ch = Inl OverflowError"
    by (simp add: make_packet_def Let_def and_then_def s e)
  moreover have "encode_ascii (replicate 65531 CHR ''a'') = Inr (replicate 65531 0x61)"
    by (simp add: encode_ascii_def list_all_iff)
  ultimately show ?thesis by simp
qed

text \<open>
  Claim C8, amended. For a request whose allowed\_protocols and allowed\_cipher\_suites
  are non-empty and whose server name is ASCII-encodable, \<^verbatim>\<open>make_packet\<close> returns a
  packet when the sizes fit the length fields (\<open>record_fits\<close>), and raises
  \<open>OverflowError\<close> when they do not.
\<close>

theorem make_packet_total_when_fits:
  assumes "allowed_protocols ch \<noteq> []" and "allowed_cipher_suites ch \<noteq> []"
    and "\<exists>b. encode_ascii (server_name ch) = Inr b"
  shows "(record_fits ch \<longrightarrow> (\<exists>packet. make_packet ch = Inr packet)) \<and>
         (\<not> record_fits ch \<longrightarrow> make_packet ch = Inl OverflowError)"
proof -
  have "list_all (\<lambda>c. (of_char c :: nat) < 128) (server_name ch)"
    using assms(3) by (auto simp: encode_ascii_def split: if_splits)
  then show ?thesis using make_packet_fits [OF assms(1)] by blast
qed

theorem make_packet_total_when_fits_witness:
  "\<exists>packet. make_packet \<lparr>server_name = ''example.com'', allowed_protocols = [TLS_1_3],
       allowed_cipher_suites = [TLS_AES_128_GCM_SHA256, TLS_AES_256_GCM_SHA384]\<rparr> = Inr packet"
proof -
  let ?ch = "\<lparr>server_name = ''example.com'', allowed_protocols = [TLS_1_3],
       allowed_cipher_suites = [TLS_AES_128_GCM_SHA256, TLS_AES_256_GCM_SHA384]\<rparr>"
  have f: "record_fits ?ch" by (simp add: record_fits_def)
  have a: "\<exists>b. encode_ascii (server_name ?ch) = Inr b" by (simp add: encode_ascii_def)
  show ?thesis using make_packet_total_when_fits [of ?ch] f a by simp
qed

section \<open>Properties of the enumeration driver\<close>

lemma workers_worker_step:
  "\<exists>wk. workers (worker_step T name proto port st i) = (workers st)[i := wk]"
proof (cases "length (workers st) \<le> i")
  case True
  then show ?thesis by (simp add: worker_step_def list_update_beyond)
next
  case False
  show ?thesis
  proof (cases "workers st ! i")
    case (Running remaining)
    then show ?thesis
      using False by (auto simp: worker_step_def Let_def split: prod.splits sum.splits)
  next
    case (Received remaining sh)
    then show ?thesis using False by (auto simp: worker_step_def Let_def)
  next
    case (Raising e)
    then show ?thesis using False by (auto simp: worker_step_def)
  next
    case Done
    have "(workers st)[i := Done] = workers st"
      using Done list_update_id [of "workers st" i] by simp
    then have "workers (worker_step T name proto port st i) = (workers st)[i := Done]"
      using False Done by (simp add: worker_step_def)
    then show ?thesis by blast
  qed
qed

lemma length_worker_step [simp]:
  "length (workers (worker_step T name proto port st i)) = length (workers st)"
  using workers_worker_step [of T name proto port st i] by auto

lemma other_worker_step:
  "j \<noteq> i \<Longrightarrow> workers (worker_step T name proto port st i) ! j = workers st ! j"
  using workers_worker_step [of T name proto port st i] by auto





lemma worker_step_alert:
  assumes "i < length (workers st)" "workers st ! i = Running remaining"
    and "send T \<lparr>server_name = name, allowed_protocols = [proto],
                  allowed_cipher_suites = remaining\<rparr> port None (world st) =
         (Inl (ServerError p l a), w1)"
  shows "worker_step T name proto port st i =
           st\<lparr>workers := (workers st)[i := (if a = handshake_failure then Done
                                              else Raising (ServerError p l a))],
              world := w1\<rparr>"
  using assms by (simp add: worker_step_def)


lemma finish_worker_running:
  "i < length (workers st) \<Longrightarrow> workers st ! i \<noteq> Done \<Longrightarrow>
   finish_worker T name proto port st i =
   finish_worker T name proto port (worker_step T name proto port st i) i"
  by (subst finish_worker.simps) simp

lemma finish_worker_stop:
  "\<not> (i < length (workers st) \<and> workers st ! i \<noteq> Done) \<Longrightarrow>
   finish_worker T name proto port st i = st"
  by (subst finish_worker.simps) auto

lemma length_finish_worker [simp]:
  "length (workers (finish_worker T name proto port st i)) = length (workers st)"
proof (induction T name proto port st i rule: finish_worker.induct)
  case (1 T name proto port st i)
  show ?case
  proof (cases "i < length (workers st) \<and> workers st ! i \<noteq> Done")
    case True
    then show ?thesis using 1 by (simp add: finish_worker_running)
  next
    case False
    then show ?thesis by (simp add: finish_worker_stop)
  qed
qed

lemma other_finish_worker:
  "j \<noteq> i \<Longrightarrow> workers (finish_worker T name proto port st i) ! j = workers st ! j"
proof (induction T name proto port st i rule: finish_worker.induct)
  case (1 T name proto port st i)
  show ?case
  proof (cases "i < length (workers st) \<and> workers st ! i \<noteq> Done")
    case True
    then show ?thesis
      using 1 by (simp add: finish_worker_running other_worker_step)
  next
    case False
    then show ?thesis by (simp add: finish_worker_stop)
  qed
qed

lemma finish_worker_Done:
  "i < length (workers st) \<Longrightarrow> workers (finish_worker T name proto port st i) ! i = Done"
proof (induction T name proto port st i rule: finish_worker.induct)
  case (1 T name proto port st i)
  show ?case
  proof (cases "i < length (workers st) \<and> workers st ! i \<noteq> Done")
    case True
    then show ?thesis
      using 1 by (simp add: finish_worker_running)
  next
    case False
    then show ?thesis using 1(2) by (simp add: finish_worker_stop)
  qed
qed




lemma length_foldl_worker_step [simp]:
  "length (workers (foldl (worker_step T name proto port) st sched)) = length (workers st)"
  by (induction sched arbitrary: st) simp_all

lemma length_foldl_finish_worker [simp]:
  "length (workers (foldl (finish_worker T name proto port) st is)) = length (workers st)"
  by (induction "is" arbitrary: st) simp_all

lemma drain_Done:
  "k \<le> length (workers st) \<Longrightarrow> j < k \<Longrightarrow>
   workers (foldl (finish_worker T name proto port) st [0..<k]) ! j = Done"
proof (induction k arbitrary: j)
  case 0
  then show ?case by simp
next
  case (Suc k)
  let ?s = "foldl (finish_worker T name proto port) st [0..<k]"
  show ?case
  proof (cases "j = k")
    case True
    then show ?thesis using Suc.prems by (simp add: finish_worker_Done)
  next
    case False
    then have "j < k" using Suc.prems by simp
    then have "workers ?s ! j = Done" using Suc.IH Suc.prems by simp
    then show ?thesis using False by (simp add: other_finish_worker)
  qed
qed

lemma pool_map_all_Done:
  "j < length (workers st) \<Longrightarrow> workers (pool_map T name proto port sched st) ! j = Done"
  unfolding pool_map_def
  using drain_Done [of "length (workers st)" "foldl (worker_step T name proto port) st sched" j]
  by simp

lemma length_pool_map [simp]:
  "length (workers (pool_map T name proto port sched st)) = length (workers st)"
  by (simp add: pool_map_def)

lemma parse_digits_Inl: "parse_digits prev acc s = Inl e \<Longrightarrow> e = ValueError"
  by (induction s arbitrary: prev acc) (auto split: if_splits)


lemma int_of_str_examples:
  "int_of_str ''443'' = Inr 443"
  "int_of_str '' +8_443 '' = Inr 8443"
  "int_of_str ''-1'' = Inr (- 1)"
  "int_of_str ''https'' = Inl ValueError"
  "int_of_str [] = Inl ValueError"
  "int_of_str ''4__43'' = Inl ValueError"
  "int_of_str [CHR 0x1C, CHR ''1''] = Inl ValueError"
  by (simp_all add: int_of_str_def is_space_def is_digit_def and_then_def Let_def
      int_max_str_digits_def)

lemma int_of_str_digit_limit:
  "int_max_str_digits < length (filter is_digit s) \<Longrightarrow> int_of_str s = Inl ValueError"
proof -
  assume a: "int_max_str_digits < length (filter is_digit s)"
  let ?t = "dropWhile is_space (rev (dropWhile is_space (rev s)))"
  have nd: "is_space c \<Longrightarrow> \<not> is_digit c" for c
    by (auto simp: is_space_def is_digit_def)
  have f1: "filter is_digit (dropWhile is_space xs) = filter is_digit xs" for xs
    by (induction xs) (auto simp: nd)
  have "filter is_digit ?t = filter is_digit (rev (dropWhile is_space (rev s)))"
    by (rule f1)
  also have "\<dots> = rev (filter is_digit (dropWhile is_space (rev s)))"
    by (simp add: rev_filter)
  also have "\<dots> = rev (filter is_digit (rev s))"
    by (simp only: f1)
  also have "\<dots> = filter is_digit s"
    by (simp add: rev_filter)
  finally have t: "filter is_digit ?t = filter is_digit s" .
  show ?thesis
  proof (cases ?t)
    case Nil
    show ?thesis unfolding int_of_str_def Nil by simp
  next
    case (Cons c cs)
    let ?body = "if c = CHR ''-'' \<or> c = CHR ''+'' then cs else c # cs"
    have "\<not> is_digit CHR ''-''" "\<not> is_digit CHR ''+''"
      by (simp_all add: is_digit_def)
    then have "filter is_digit ?body = filter is_digit (c # cs)"
      by auto
    then have "int_max_str_digits < length (filter is_digit ?body)"
      using a t Cons by simp
    then show ?thesis
      unfolding int_of_str_def Cons
      by (cases "parse_digits False 0 ?body")
         (auto simp: and_then_def Let_def dest: parse_digits_Inl)
  qed
qed












lemma length_initial_pool [simp]: "length (workers (initial_pool n w)) = n"
  by (simp add: initial_pool_def cipher_suite_parts_def)

lemma cipher_suite_parts_1: "cipher_suite_parts 1 = [CipherSuite_members]"
  by (simp add: cipher_suite_parts_def case_prod_beta)

lemma initial_pool_1:
  "initial_pool 1 w = \<lparr>workers = [Running CipherSuite_members], accepted_cipher_suites = [],
                        first_error = None, world = w\<rparr>"
  using cipher_suite_parts_1 by (simp add: initial_pool_def)

lemma enumerate_ciphers_suites_run:
  "parse_host host port = Inr (name, port1) \<Longrightarrow> 1 \<le> max_workers \<Longrightarrow>
   enumerate_ciphers_suites T sched w host proto port max_workers =
   pool_result (pool_map T name proto port1 sched (initial_pool (nat max_workers) w))"
  by (simp add: enumerate_ciphers_suites_def and_then_def)


lemma full_request_fits:
  "\<exists>packet. make_packet \<lparr>server_name = ''example.com'', allowed_protocols = [TLS_1_3],
                allowed_cipher_suites = CipherSuite_members\<rparr> = Inr packet"
proof -
  let ?ch = "\<lparr>server_name = ''example.com'', allowed_protocols = [TLS_1_3],
                allowed_cipher_suites = CipherSuite_members\<rparr>"
  have "record_fits ?ch" by (simp add: record_fits_def CipherSuite_members_def)
  then show ?thesis using make_packet_fits [of ?ch] by simp
qed

lemma from_packet_alert_bytes:
  "from_packet (take 4096 [0x15, 0x03, 0x03, 0x00, 0x02, 0x02, 0x28]) =
     Inl (ServerError TLS_1_2 FATAL handshake_failure)"
  "from_packet (take 4096 [0x15, 0x03, 0x03, 0x00, 0x02, 0x02, 0x46]) =
     Inl (ServerError TLS_1_2 FATAL protocol_version)"
  by (simp_all add: from_packet_alert_long and_then_def Protocol_of_def AlertLevel_of_def
      AlertDescription_of_def enum_lookup_def Protocol_members_def AlertLevel_members_def
      AlertDescription_members_def)

lemma send_response:
  assumes "create_connection T w (server_name ch) port = (Inr u, w1)"
    and "make_packet ch = Inr packet"
    and "send_recv T w1 packet = (Inr response, w2)"
  shows "send T ch port None w = (from_packet (take 4096 response), w2)"
  using assms by (simp add: send_def)

lemma worker_step_hello:
  assumes "i < length (workers st)" "workers st ! i = Running remaining"
    and "send T \<lparr>server_name = name, allowed_protocols = [proto],
                  allowed_cipher_suites = remaining\<rparr> port None (world st) = (Inr sh, w1)"
  shows "worker_step T name proto port st i =
           st\<lparr>workers := (workers st)[i := Received remaining sh], world := w1\<rparr>"
  using assms by (simp add: worker_step_def)

lemma worker_step_Received:
  assumes "i < length (workers st)" "workers st ! i = Received remaining sh"
    and "cipher_suite sh \<in> set remaining"
  shows "worker_step T name proto port st i =
           st\<lparr>workers := (workers st)[i := Running (remove1 (cipher_suite sh) remaining)],
              accepted_cipher_suites := accepted_cipher_suites st @ [cipher_suite sh]\<rparr>"
  using assms by (simp add: worker_step_def Let_def)

lemma small_request_fits:
  assumes "length cs \<le> 22"
  shows "\<exists>packet. make_packet \<lparr>server_name = ''example.com'', allowed_protocols = [TLS_1_3],
                allowed_cipher_suites = cs\<rparr> = Inr packet"
proof -
  let ?ch = "\<lparr>server_name = ''example.com'', allowed_protocols = [TLS_1_3],
                allowed_cipher_suites = cs\<rparr>"
  have "record_fits ?ch" using assms by (simp add: record_fits_def)
  then show ?thesis using make_packet_fits [of ?ch] by simp
qed

lemma finish_as_steps:
  "\<exists>k. finish_worker T name proto port st i =
        foldl (worker_step T name proto port) st (replicate k i)"
proof (induction T name proto port st i rule: finish_worker.induct)
  case (1 T name proto port st i)
  show ?case
  proof (cases "i < length (workers st) \<and> workers st ! i \<noteq> Done")
    case True
    then obtain k where "finish_worker T name proto port (worker_step T name proto port st i) i =
        foldl (worker_step T name proto port) (worker_step T name proto port st i) (replicate k i)"
      using "1.IH" by blast
    then have "finish_worker T name proto port st i =
        foldl (worker_step T name proto port) st (replicate (Suc k) i)"
      using True by (simp add: finish_worker_running)
    then show ?thesis by blast
  next
    case False
    then have "finish_worker T name proto port st i =
        foldl (worker_step T name proto port) st (replicate 0 i)"
      by (simp add: finish_worker_stop)
    then show ?thesis by blast
  qed
qed

lemma drain_as_steps:
  "\<exists>tr. foldl (finish_worker T name proto port) st js =
         foldl (worker_step T name proto port) st tr"
proof (induction js arbitrary: st)
  case Nil
  have "foldl (finish_worker T name proto port) st [] =
        foldl (worker_step T name proto port) st []" by simp
  then show ?case by blast
next
  case (Cons j js)
  obtain k where k: "finish_worker T name proto port st j =
        foldl (worker_step T name proto port) st (replicate k j)"
    using finish_as_steps by blast
  obtain tr where "foldl (finish_worker T name proto port) (finish_worker T name proto port st j) js =
         foldl (worker_step T name proto port) (finish_worker T name proto port st j) tr"
    using Cons by blast
  then have "foldl (finish_worker T name proto port) st (j # js) =
         foldl (worker_step T name proto port) st (replicate k j @ tr)"
    by (simp add: k)
  then show ?case by blast
qed

lemma drain_finished:
  "\<forall>j<length (workers st). workers st ! j = Done \<Longrightarrow>
   foldl (finish_worker T name proto port) st js = st"
  by (induction js) (simp_all add: finish_worker_stop)

text \<open>
  Every run is the run of a complete schedule: the steps that complete the workers once
  the schedule is used up can be appended to the schedule, and the final state is the
  same. A statement about the scheduled steps of every schedule is therefore a
  statement about every step of every run.
\<close>

lemma pool_map_as_schedule:
  "\<exists>tr. foldl (worker_step T name proto port) st (sched @ tr) =
          pool_map T name proto port sched st \<and>
        pool_map T name proto port (sched @ tr) st = pool_map T name proto port sched st"
proof -
  let ?s = "foldl (worker_step T name proto port) st sched"
  obtain tr where tr: "foldl (finish_worker T name proto port) ?s [0..<length (workers st)] =
         foldl (worker_step T name proto port) ?s tr"
    using drain_as_steps by blast
  then have a: "foldl (worker_step T name proto port) st (sched @ tr) =
          pool_map T name proto port sched st"
    by (simp add: pool_map_def)
  have "\<forall>j<length (workers (pool_map T name proto port sched st)).
          workers (pool_map T name proto port sched st) ! j = Done"
    by (simp add: pool_map_all_Done)
  then have "foldl (finish_worker T name proto port) (pool_map T name proto port sched st)
               [0..<length (workers st)] = pool_map T name proto port sched st"
    by (rule drain_finished)
  then have "pool_map T name proto port (sched @ tr) st = pool_map T name proto port sched st"
    unfolding pool_map_def [of T name proto port "sched @ tr" st] a .
  then show ?thesis using a by blast
qed

lemma from_packet_hello_bytes:
  "from_packet (take 4096 ([0x16, 0x03, 0x03, 0x00, 0x30, 0x02, 0x00, 0x00, 0x2c, 0x03, 0x03] @
                   replicate 32 0 @ [0x00, 0x13, 0x01])) =
   Inr \<lparr>protocol = TLS_1_2, cipher_suite = TLS_AES_128_GCM_SHA256\<rparr>"
proof -
  let ?p = "[0x16, 0x03, 0x03, 0x00, 0x30, 0x02, 0x00, 0x00, 0x2c, 0x03, 0x03] @
                   replicate 32 0 @ [0x00, 0x13, 0x01 :: byte]"
  let ?f = "\<lparr>record_type = 0x16, legacy_record_version = 0x0303, handshake_length = 0x30,
          handshake_type = 0x02, server_hello_length = [0x00, 0x00, 0x2c],
          server_version_int = 0x0303, server_random = replicate 32 0,
          session_id_length = 0\<rparr>"
  have t: "take 4096 ?p = ?p" by simp
  have u: "unpack_begin (take begin_length ?p) = Inr ?f"
    by (simp add: unpack_begin_def begin_length_def from_uint8_def nth_append)
  have c: "take 2 (drop (begin_length + nat (session_id_length ?f)) ?p) = [0x13, 0x01]"
    by (simp add: begin_length_def)
  have "from_packet ?p =
     and_then (to_uint16 (server_version_int ?f)) (\<lambda>v.
     and_then (Protocol_of v) (\<lambda>p.
     and_then (CipherSuite_of (take 2 (drop (begin_length + nat (session_id_length ?f)) ?p))) (\<lambda>c.
     Inr \<lparr>protocol = p, cipher_suite = c\<rparr>)))"
    by (rule from_packet_valid_begin [OF _ _ u]) simp_all
  then have "from_packet ?p = Inr \<lparr>protocol = TLS_1_2, cipher_suite = TLS_AES_128_GCM_SHA256\<rparr>"
    unfolding c
    by (simp add: to_uint16_def and_then_def Protocol_of_def CipherSuite_of_def enum_lookup_def
        Protocol_members_def CipherSuite_members_def)
  then show ?thesis unfolding t .
qed

lemma send_alert_server:
  assumes "length cs \<le> 22"
  shows "send (alert_server d) \<lparr>server_name = ''example.com'', allowed_protocols = [TLS_1_3],
            allowed_cipher_suites = cs\<rparr> 443 None () =
         (from_packet (take 4096 [0x15, 0x03, 0x03, 0x00, 0x02, 0x02, d]), ())"
proof -
  obtain packet where "make_packet \<lparr>server_name = ''example.com'', allowed_protocols = [TLS_1_3],
                allowed_cipher_suites = cs\<rparr> = Inr packet"
    using small_request_fits [OF assms] by blast
  then show ?thesis
    by (intro send_response [where u = "()" and ?w1.0 = "()"]) (simp_all add: alert_server_def)
qed

lemma send_one_suite_server:
  assumes "length cs \<le> 22"
  shows "send one_suite_server \<lparr>server_name = ''example.com'', allowed_protocols = [TLS_1_3],
            allowed_cipher_suites = cs\<rparr> 443 None w =
         (if w = 0 then Inr \<lparr>protocol = TLS_1_2, cipher_suite = TLS_AES_128_GCM_SHA256\<rparr>
          else Inl (ServerError TLS_1_2 FATAL handshake_failure), Suc w)"
proof -
  obtain packet where p: "make_packet \<lparr>server_name = ''example.com'', allowed_protocols = [TLS_1_3],
                allowed_cipher_suites = cs\<rparr> = Inr packet"
    using small_request_fits [OF assms] by blast
  have "send one_suite_server \<lparr>server_name = ''example.com'', allowed_protocols = [TLS_1_3],
            allowed_cipher_suites = cs\<rparr> 443 None w =
        (from_packet (take 4096 (if w = 0
              then [0x16, 0x03, 0x03, 0x00, 0x30, 0x02, 0x00, 0x00, 0x2c, 0x03, 0x03] @
                   replicate 32 0 @ [0x00, 0x13, 0x01]
              else [0x15, 0x03, 0x03, 0x00, 0x02, 0x02, 0x28])), Suc w)"
    using p by (intro send_response [where u = "()" and ?w1.0 = w]) (simp_all add: one_suite_server_def)
  then show ?thesis
    using from_packet_hello_bytes from_packet_alert_bytes(1) by (cases "w = 0") simp_all
qed

lemma length_CipherSuite_members: "length CipherSuite_members = 22"
  by (simp add: CipherSuite_members_def)

lemma pool_map_single:
  "length (workers st) = 1 \<Longrightarrow>
   pool_map T name proto port [] st = finish_worker T name proto port st 0"
  by (simp add: pool_map_def)

lemma run_alert_server:
  "pool_map (alert_server 0x28) ''example.com'' TLS_1_3 443 [] (initial_pool 1 ()) =
     \<lparr>workers = [Done], accepted_cipher_suites = [], first_error = None, world = ()\<rparr>"
proof -
  let ?T = "alert_server 0x28"
  let ?s0 = "\<lparr>workers = [Running CipherSuite_members], accepted_cipher_suites = [],
              first_error = None, world = ()\<rparr>"
  let ?s1 = "\<lparr>workers = [Done], accepted_cipher_suites = [], first_error = None, world = ()\<rparr>"
  have send: "send ?T \<lparr>server_name = ''example.com'', allowed_protocols = [TLS_1_3],
            allowed_cipher_suites = CipherSuite_members\<rparr> 443 None (world ?s0) =
         (Inl (ServerError TLS_1_2 FATAL handshake_failure), ())"
    using send_alert_server [of CipherSuite_members "0x28"] from_packet_alert_bytes(1)
    by (simp add: length_CipherSuite_members)
  have 1: "worker_step ?T ''example.com'' TLS_1_3 443 ?s0 0 = ?s1"
    using worker_step_alert [of 0 ?s0 CipherSuite_members ?T "''example.com''" TLS_1_3 443
        TLS_1_2 FATAL handshake_failure "()"] send
    by simp
  have "finish_worker ?T ''example.com'' TLS_1_3 443 ?s0 0 =
        finish_worker ?T ''example.com'' TLS_1_3 443 ?s1 0"
    using finish_worker_running [of 0 ?s0 ?T "''example.com''" TLS_1_3 443] 1 by simp
  also have "\<dots> = ?s1"
    by (rule finish_worker_stop) simp
  finally have F: "finish_worker ?T ''example.com'' TLS_1_3 443 ?s0 0 = ?s1" .
  have "pool_map ?T ''example.com'' TLS_1_3 443 [] ?s0 =
        finish_worker ?T ''example.com'' TLS_1_3 443 ?s0 0"
    by (rule pool_map_single) simp
  then show ?thesis unfolding initial_pool_1 F .
qed

lemma run_one_suite_server:
  "pool_map one_suite_server ''example.com'' TLS_1_3 443 [] (initial_pool 1 0) =
     \<lparr>workers = [Done], accepted_cipher_suites = [TLS_AES_128_GCM_SHA256],
      first_error = None, world = 2\<rparr>"
proof -
  let ?T = "one_suite_server"
  let ?sh = "\<lparr>protocol = TLS_1_2, cipher_suite = TLS_AES_128_GCM_SHA256\<rparr>"
  let ?rest = "remove1 TLS_AES_128_GCM_SHA256 CipherSuite_members"
  let ?s0 = "\<lparr>workers = [Running CipherSuite_members], accepted_cipher_suites = [],
              first_error = None, world = 0 :: nat\<rparr>"
  let ?s1 = "\<lparr>workers = [Received CipherSuite_members ?sh], accepted_cipher_suites = [],
              first_error = None, world = Suc 0\<rparr>"
  let ?s2 = "\<lparr>workers = [Running ?rest], accepted_cipher_suites = [TLS_AES_128_GCM_SHA256],
              first_error = None, world = Suc 0\<rparr>"
  let ?s3 = "\<lparr>workers = [Done], accepted_cipher_suites = [TLS_AES_128_GCM_SHA256],
              first_error = None, world = 2 :: nat\<rparr>"
  have lr: "length ?rest \<le> 22"
    by (simp add: length_remove1 length_CipherSuite_members)
  have mem: "TLS_AES_128_GCM_SHA256 \<in> set CipherSuite_members"
    by (simp add: CipherSuite_members_def)
  have send0: "send ?T \<lparr>server_name = ''example.com'', allowed_protocols = [TLS_1_3],
            allowed_cipher_suites = CipherSuite_members\<rparr> 443 None (world ?s0) = (Inr ?sh, Suc 0)"
    using send_one_suite_server [of CipherSuite_members 0] by (simp add: length_CipherSuite_members)
  have send1: "send ?T \<lparr>server_name = ''example.com'', allowed_protocols = [TLS_1_3],
            allowed_cipher_suites = ?rest\<rparr> 443 None (world ?s2) =
            (Inl (ServerError TLS_1_2 FATAL handshake_failure), Suc (Suc 0))"
    using send_one_suite_server [OF lr, of "Suc 0"] by simp
  have 1: "worker_step ?T ''example.com'' TLS_1_3 443 ?s0 0 = ?s1"
    using worker_step_hello [of 0 ?s0 CipherSuite_members ?T "''example.com''" TLS_1_3 443 ?sh
        "Suc 0"] send0
    by simp
  have 2: "worker_step ?T ''example.com'' TLS_1_3 443 ?s1 0 = ?s2"
    using worker_step_Received [of 0 ?s1 CipherSuite_members ?sh ?T "''example.com''" TLS_1_3 443]
      mem
    by simp
  have 3: "worker_step ?T ''example.com'' TLS_1_3 443 ?s2 0 = ?s3"
    using worker_step_alert [of 0 ?s2 ?rest ?T "''example.com''" TLS_1_3 443
        TLS_1_2 FATAL handshake_failure "Suc (Suc 0)"] send1
    by (simp add: numeral_2_eq_2)
  have "finish_worker ?T ''example.com'' TLS_1_3 443 ?s0 0 =
        finish_worker ?T ''example.com'' TLS_1_3 443 ?s1 0"
    using finish_worker_running [of 0 ?s0 ?T "''example.com''" TLS_1_3 443] 1 by simp
  also have "\<dots> = finish_worker ?T ''example.com'' TLS_1_3 443 ?s2 0"
    using finish_worker_running [of 0 ?s1 ?T "''example.com''" TLS_1_3 443] 2 by simp
  also have "\<dots> = finish_worker ?T ''example.com'' TLS_1_3 443 ?s3 0"
    using finish_worker_running [of 0 ?s2 ?T "''example.com''" TLS_1_3 443] 3 by simp
  also have "\<dots> = ?s3"
    by (rule finish_worker_stop) simp
  finally have F: "finish_worker ?T ''example.com'' TLS_1_3 443 ?s0 0 = ?s3" .
  have "pool_map ?T ''example.com'' TLS_1_3 443 [] ?s0 =
        finish_worker ?T ''example.com'' TLS_1_3 443 ?s0 0"
    by (rule pool_map_single) simp
  then show ?thesis unfolding initial_pool_1 F .
qed



text \<open>
  Claim C7. The call never returns the empty list. A returned list is the non-empty list
  of accepted suites of the run; and when the run ends with no accepted suite, the call
  fails, with \<open>ValueError\<close> when no worker raised.
\<close>

theorem enumerate_never_empty:
  "enumerate_ciphers_suites T sched w host proto port max_workers \<noteq> Inr [] \<and>
   (\<forall>xs. enumerate_ciphers_suites T sched w host proto port max_workers = Inr xs \<longrightarrow>
      xs \<noteq> [] \<and>
      (\<exists>name port1. parse_host host port = Inr (name, port1) \<and>
         xs = accepted_cipher_suites
                (pool_map T name proto port1 sched (initial_pool (nat max_workers) w)))) \<and>
   (parse_host host port = Inr (name, port1) \<and> 1 \<le> max_workers \<and>
    accepted_cipher_suites
      (pool_map T name proto port1 sched (initial_pool (nat max_workers) w)) = [] \<longrightarrow>
      (\<exists>e. enumerate_ciphers_suites T sched w host proto port max_workers = Inl e) \<and>
      (first_error (pool_map T name proto port1 sched (initial_pool (nat max_workers) w)) = None
         \<longrightarrow> enumerate_ciphers_suites T sched w host proto port max_workers = Inl ValueError))"
proof -
  have r: "pool_result st = Inr xs \<Longrightarrow> xs \<noteq> [] \<and> xs = accepted_cipher_suites st"
    for st :: "'a pool" and xs
    by (auto simp: pool_result_def split: option.splits if_splits)
  have a: "xs \<noteq> [] \<and>
      (\<exists>name port1. parse_host host port = Inr (name, port1) \<and>
         xs = accepted_cipher_suites
                (pool_map T name proto port1 sched (initial_pool (nat max_workers) w)))"
    if e: "enumerate_ciphers_suites T sched w host proto port max_workers = Inr xs" for xs
  proof (cases "parse_host host port")
    case (Inl x)
    then show ?thesis using e by (simp add: enumerate_ciphers_suites_def and_then_def)
  next
    case (Inr np)
    obtain name port1 where np: "np = (name, port1)" by (cases np)
    have mw: "1 \<le> max_workers"
      using e Inr np by (cases "max_workers < 1") (simp_all add: enumerate_ciphers_suites_def and_then_def)
    have "pool_result (pool_map T name proto port1 sched (initial_pool (nat max_workers) w)) = Inr xs"
      using e enumerate_ciphers_suites_run [of host port name port1 max_workers T sched w proto]
        Inr np mw by simp
    then show ?thesis using r Inr np by blast
  qed
  have b: "(\<exists>e. enumerate_ciphers_suites T sched w host proto port max_workers = Inl e) \<and>
      (first_error (pool_map T name proto port1 sched (initial_pool (nat max_workers) w)) = None
         \<longrightarrow> enumerate_ciphers_suites T sched w host proto port max_workers = Inl ValueError)"
    if "parse_host host port = Inr (name, port1)" "1 \<le> max_workers"
       "accepted_cipher_suites
          (pool_map T name proto port1 sched (initial_pool (nat max_workers) w)) = []"
    using that enumerate_ciphers_suites_run [of host port name port1 max_workers T sched w proto]
    by (auto simp: pool_result_def split: option.splits)
  show ?thesis using a b by blast
qed

theorem enumerate_never_empty_witness:
  "enumerate_ciphers_suites (alert_server 0x28) [] () ''example.com'' TLS_1_3 443 1 =
     Inl ValueError \<and>
   enumerate_ciphers_suites one_suite_server [] 0 ''example.com'' TLS_1_3 443 1 =
     Inr [TLS_AES_128_GCM_SHA256]"
proof -
  have ph: "parse_host ''example.com'' 443 = Inr (''example.com'', 443)"
    by (simp add: parse_host_def)
  have n: "nat 1 = 1" by simp
  have a: "enumerate_ciphers_suites (alert_server 0x28) [] () ''example.com'' TLS_1_3 443 1 =
     Inl ValueError"
    using enumerate_never_empty [where T = "alert_server 0x28" and sched = "[]" and w = "()"
        and host = "''example.com''" and proto = TLS_1_3 and port = 443 and max_workers = 1
        and name = "''example.com''" and ?port1.0 = 443] ph
    unfolding n run_alert_server by simp
  have "enumerate_ciphers_suites one_suite_server [] 0 ''example.com'' TLS_1_3 443 1 =
        pool_result (pool_map one_suite_server ''example.com'' TLS_1_3 443 []
          (initial_pool (nat 1) 0))"
    by (rule enumerate_ciphers_suites_run [OF ph]) simp
  then have b: "enumerate_ciphers_suites one_suite_server [] 0 ''example.com'' TLS_1_3 443 1 =
     Inr [TLS_AES_128_GCM_SHA256]"
    unfolding n run_one_suite_server by (simp add: pool_result_def)
  show ?thesis using a b by simp
qed




end
